theory Spec2Isabelle
  imports Complex_Main
begin

section \<open>The snake game engine of \<^verbatim>\<open>snake.js\<close>\<close>

text \<open>
  The engine is a set of event handlers (\<^verbatim>\<open>handleKeyPress\<close>, \<^verbatim>\<open>startGame\<close>,
  \<^verbatim>\<open>togglePause\<close>, \<^verbatim>\<open>resetGame\<close>, and \<^verbatim>\<open>update\<close>, run by the interval timer) over
  global variables. The globals become one record that every handler takes and returns.
  Canvas drawing, sound and the texts of the buttons have no influence on the globals and
  are left out.

  Two things come from outside the script and are parameters of the model:
  \<^item> \<^verbatim>\<open>tileCount = canvas.width / gridSize\<close>: the canvas belongs to the page, so the number
    of tiles per axis is the parameter \<open>tileCount\<close>;
  \<^item> \<^verbatim>\<open>Math.random()\<close>: the parameter \<open>rnd\<close> gives the value of the \<open>n\<close>-th call, and the
    field \<open>draws\<close> of the state counts the calls made so far. Products with a random value
    are taken over the reals.
\<close>

subsection \<open>Data\<close>

text \<open>A position object \<^verbatim>\<open>{ x: ..., y: ... }\<close>; the direction is an object of the same shape.\<close>

record point =
  x :: int
  y :: int

text \<open>
  The global variables. \<open>gameLoop\<close> is \<^verbatim>\<open>null\<close> (\<open>None\<close>) or the handle of the running
  interval, kept as the period it was scheduled with. \<open>highScore\<close>, read from the browser's
  storage as text, is kept as the number it stands for.
\<close>

record state =
  snake :: "point list"
  direction :: point
  food :: point
  obstacles :: "point list"
  score :: int
  highScore :: int
  gameLoop :: "int option"
  isPaused :: bool
  gameSpeed :: int
  draws :: nat

definition minSpeed :: int where
  "minSpeed = 50"

definition speedIncrement :: int where
  "speedIncrement = 5"

definition maxAttempts :: nat where
  "maxAttempts = 10"

text \<open>The values of the globals when the script has loaded; \<open>hs\<close> is the stored high score.\<close>

definition initial :: "int \<Rightarrow> state" where
  "initial hs =
     \<lparr>snake = [\<lparr>x = 10, y = 10\<rparr>], direction = \<lparr>x = 0, y = 0\<rparr>, food = \<lparr>x = 15, y = 15\<rparr>,
      obstacles = [], score = 0, highScore = hs, gameLoop = None, isPaused = False,
      gameSpeed = 250, draws = 0\<rparr>"

text \<open>
  What a handler can do besides returning: \<open>TypeError\<close> is the exception of reading \<^verbatim>\<open>.x\<close>
  of \<^verbatim>\<open>undefined\<close> (the head of an empty snake); \<open>NoCoordinates\<close> marks the one place where
  the script would go on with an object that has no \<^verbatim>\<open>x\<close> and \<^verbatim>\<open>y\<close>
  (\<^verbatim>\<open>{ ...undefined }\<close> in \<^verbatim>\<open>eatFood\<close> on an empty snake), which a \<open>point\<close> cannot hold.
  A loop that never ends is the value \<open>None\<close> of an option.
\<close>

datatype error = TypeError | NoCoordinates

subsection \<open>Keyboard input\<close>

text \<open>
  \<^verbatim>\<open>handleKeyPress\<close>: two \<^verbatim>\<open>if\<close>/\<^verbatim>\<open>else if\<close> chains, the arrow keys and then WASD; each
  branch tests the key and the current \<^verbatim>\<open>direction\<close>.
\<close>

definition handleKeyPress :: "string \<Rightarrow> state \<Rightarrow> state" where
  "handleKeyPress key s =
     (let s1 =
        (if key = ''ArrowUp'' \<and> y (direction s) = 0 then s\<lparr>direction := \<lparr>x = 0, y = -1\<rparr>\<rparr>
         else if key = ''ArrowDown'' \<and> y (direction s) = 0 then s\<lparr>direction := \<lparr>x = 0, y = 1\<rparr>\<rparr>
         else if key = ''ArrowLeft'' \<and> x (direction s) = 0 then s\<lparr>direction := \<lparr>x = -1, y = 0\<rparr>\<rparr>
         else if key = ''ArrowRight'' \<and> x (direction s) = 0 then s\<lparr>direction := \<lparr>x = 1, y = 0\<rparr>\<rparr>
         else s)
      in
        (if key = ''w'' \<and> y (direction s1) = 0 then s1\<lparr>direction := \<lparr>x = 0, y = -1\<rparr>\<rparr>
         else if key = ''s'' \<and> y (direction s1) = 0 then s1\<lparr>direction := \<lparr>x = 0, y = 1\<rparr>\<rparr>
         else if key = ''a'' \<and> x (direction s1) = 0 then s1\<lparr>direction := \<lparr>x = -1, y = 0\<rparr>\<rparr>
         else if key = ''d'' \<and> x (direction s1) = 0 then s1\<lparr>direction := \<lparr>x = 1, y = 0\<rparr>\<rparr>
         else s1))"

text \<open>
  The direction each key stands for: the value the key's branch of \<^verbatim>\<open>handleKeyPress\<close>
  assigns. Other keys stand for none.
\<close>

definition keyDirection :: "string \<Rightarrow> point option" where
  "keyDirection key =
     (if key = ''ArrowUp'' \<or> key = ''w'' then Some \<lparr>x = 0, y = -1\<rparr>
      else if key = ''ArrowDown'' \<or> key = ''s'' then Some \<lparr>x = 0, y = 1\<rparr>
      else if key = ''ArrowLeft'' \<or> key = ''a'' then Some \<lparr>x = -1, y = 0\<rparr>
      else if key = ''ArrowRight'' \<or> key = ''d'' then Some \<lparr>x = 1, y = 0\<rparr>
      else None)"

subsection \<open>Snake movement\<close>

text \<open>
  The two statements \<^verbatim>\<open>if (v < 0) v = tileCount - 1; if (v >= tileCount) v = 0;\<close>, which
  \<^verbatim>\<open>moveSnake\<close> and \<^verbatim>\<open>moveObstacles\<close> apply to each coordinate.
\<close>

definition wrap :: "int \<Rightarrow> int \<Rightarrow> int" where
  "wrap tileCount v =
     (let v1 = (if v < 0 then tileCount - 1 else v)
      in if v1 \<ge> tileCount then 0 else v1)"

text \<open>\<^verbatim>\<open>moveSnake\<close>: \<^verbatim>\<open>unshift\<close> of the new head, then \<^verbatim>\<open>pop\<close>, on every call.\<close>

definition moveSnake :: "int \<Rightarrow> state \<Rightarrow> error + state" where
  "moveSnake tileCount s =
     (case snake s of
        [] \<Rightarrow> Inl TypeError
      | h # _ \<Rightarrow>
          let newX = wrap tileCount (x h + x (direction s));
              newY = wrap tileCount (y h + y (direction s));
              head = \<lparr>x = newX, y = newY\<rparr>
          in Inr (s\<lparr>snake := butlast (head # snake s)\<rparr>))"

subsection \<open>Collision detection\<close>

text \<open>The loop \<^verbatim>\<open>for (let i = 1; i < snake.length; i++)\<close> of \<^verbatim>\<open>checkCollision\<close>.\<close>

function selfCollision :: "point \<Rightarrow> point list \<Rightarrow> nat \<Rightarrow> bool" where
  "selfCollision head sn i =
     (if i < length sn then
        (if x head = x (sn ! i) \<and> y head = y (sn ! i) then True
         else selfCollision head sn (i + 1))
      else False)"
  by pat_completeness auto
termination
  by (relation "measure (\<lambda>(head, sn, i). length sn - i)") auto

declare selfCollision.simps [simp del]

text \<open>The loop \<^verbatim>\<open>for (let obstacle of obstacles)\<close> of \<^verbatim>\<open>checkCollision\<close>.\<close>

fun obstacleCollision :: "point \<Rightarrow> point list \<Rightarrow> bool" where
  "obstacleCollision head [] = False"
| "obstacleCollision head (obstacle # rest) =
     (if x head = x obstacle \<and> y head = y obstacle then True
      else obstacleCollision head rest)"

text \<open>
  \<^verbatim>\<open>checkCollision\<close>. With an empty snake \<^verbatim>\<open>head\<close> is \<^verbatim>\<open>undefined\<close>: the first loop does not
  run, and the second throws as soon as there is an obstacle to compare with.
\<close>

definition checkCollision :: "state \<Rightarrow> error + bool" where
  "checkCollision s =
     (case snake s of
        [] \<Rightarrow> (if obstacles s = [] then Inr False else Inl TypeError)
      | head # _ \<Rightarrow>
          if selfCollision head (snake s) 1 then Inr True
          else if obstacleCollision head (obstacles s) then Inr True
          else Inr False)"

definition checkFoodCollision :: "state \<Rightarrow> error + bool" where
  "checkFoodCollision s =
     (case snake s of
        [] \<Rightarrow> Inl TypeError
      | head # _ \<Rightarrow> Inr (x head = x (food s) \<and> y head = y (food s)))"

subsection \<open>Spawning\<close>

text \<open>\<^verbatim>\<open>arr.some(e => e.x === p.x && e.y === p.y)\<close>, the occupancy test of every spawner.\<close>

definition occupies :: "point list \<Rightarrow> point \<Rightarrow> bool" where
  "occupies arr p = list_ex (\<lambda>e. x e = x p \<and> y e = y p) arr"

text \<open>
  \<^verbatim>\<open>spawnFood\<close>: the body is the loop \<^verbatim>\<open>while (!validPosition)\<close>, which has no bound, followed
  by \<^verbatim>\<open>food = newFood\<close>. Each round makes two calls of \<^verbatim>\<open>Math.random()\<close>.
\<close>

partial_function (option) spawnFood :: "int \<Rightarrow> (nat \<Rightarrow> real) \<Rightarrow> state \<Rightarrow> state option" where
  "spawnFood tileCount rnd s =
     (let newFood = \<lparr>x = \<lfloor>rnd (draws s) * of_int tileCount\<rfloor>,
                     y = \<lfloor>rnd (draws s + 1) * of_int tileCount\<rfloor>\<rparr>;
          validPosition = (\<not> occupies (snake s) newFood \<and> \<not> occupies (obstacles s) newFood);
          s' = s\<lparr>draws := draws s + 2\<rparr>
      in if validPosition then Some (s'\<lparr>food := newFood\<rparr>)
         else spawnFood tileCount rnd s')"

text \<open>\<^verbatim>\<open>spawnObstacle\<close>: the same loop, with the food excluded as well, then \<^verbatim>\<open>push\<close>.\<close>

partial_function (option) spawnObstacle :: "int \<Rightarrow> (nat \<Rightarrow> real) \<Rightarrow> state \<Rightarrow> state option" where
  "spawnObstacle tileCount rnd s =
     (let newObstacle = \<lparr>x = \<lfloor>rnd (draws s) * of_int tileCount\<rfloor>,
                         y = \<lfloor>rnd (draws s + 1) * of_int tileCount\<rfloor>\<rparr>;
          validPosition = (\<not> occupies (snake s) newObstacle
                           \<and> \<not> (x (food s) = x newObstacle \<and> y (food s) = y newObstacle)
                           \<and> \<not> occupies (obstacles s) newObstacle);
          s' = s\<lparr>draws := draws s + 2\<rparr>
      in if validPosition then Some (s'\<lparr>obstacles := obstacles s @ [newObstacle]\<rparr>)
         else spawnObstacle tileCount rnd s')"

subsection \<open>Eating\<close>

text \<open>
  \<^verbatim>\<open>eatFood\<close>, in the order of the script: score, high score, growth by a copy of the
  current tail, an obstacle on every multiple of 50, the speed-up (which reschedules the
  interval), new food.
\<close>

definition eatFood :: "int \<Rightarrow> (nat \<Rightarrow> real) \<Rightarrow> state \<Rightarrow> (error + state) option" where
  "eatFood tileCount rnd s =
     (let s1 = s\<lparr>score := score s + 10\<rparr>;
          s2 = (if score s1 > highScore s1 then s1\<lparr>highScore := score s1\<rparr> else s1)
      in case snake s2 of
           [] \<Rightarrow> Some (Inl NoCoordinates)
         | _ # _ \<Rightarrow>
             let tail = last (snake s2);
                 s3 = s2\<lparr>snake := snake s2 @ [\<lparr>x = x tail, y = y tail\<rparr>]\<rparr>
             in case (if score s3 \<ge> 50 \<and> score s3 mod 50 = 0
                      then spawnObstacle tileCount rnd s3 else Some s3) of
                  None \<Rightarrow> None
                | Some s4 \<Rightarrow>
                    let s5 = (if gameSpeed s4 > minSpeed
                              then s4\<lparr>gameSpeed := max minSpeed (gameSpeed s4 - speedIncrement),
                                      gameLoop := Some (max minSpeed (gameSpeed s4 - speedIncrement))\<rparr>
                              else s4)
                    in case spawnFood tileCount rnd s5 of
                         None \<Rightarrow> None
                       | Some s6 \<Rightarrow> Some (Inr s6))"

subsection \<open>Moving obstacles\<close>

text \<open>
  The loop \<^verbatim>\<open>while (!validPosition && attempts < maxAttempts)\<close> for the obstacle at index
  \<open>i\<close>: one call of \<^verbatim>\<open>Math.random()\<close> per round. The result is \<open>Some newPosition\<close> when the
  loop ends with \<^verbatim>\<open>validPosition\<close> set and \<open>None\<close> when the attempts are used up, together
  with the number of calls made. \<^verbatim>\<open>other !== obstacle\<close> compares object identity; the
  obstacles are separate objects, so identity is the index in the array.
\<close>

definition otherObstacle :: "point list \<Rightarrow> nat \<Rightarrow> point \<Rightarrow> bool" where
  "otherObstacle obs i p =
     list_ex (\<lambda>j. j \<noteq> i \<and> x (obs ! j) = x p \<and> y (obs ! j) = y p) [0..<length obs]"

text \<open>
  One round of the loop, in two parts. \<open>moveCandidate\<close> is the position the round computes
  from its random value \<open>r\<close>: the \<^verbatim>\<open>switch\<close> on \<^verbatim>\<open>Math.floor(r * 4)\<close> (no case for other
  values), then the wrap of both coordinates. \<open>validMove\<close> is the value the round assigns
  to \<^verbatim>\<open>validPosition\<close>.
\<close>

definition moveCandidate :: "int \<Rightarrow> real \<Rightarrow> point \<Rightarrow> point" where
  "moveCandidate tileCount r obstacle =
     (let dir = \<lfloor>r * 4\<rfloor>;
          p0 = \<lparr>x = x obstacle, y = y obstacle\<rparr>;
          p1 = (if dir = 0 then p0\<lparr>y := y p0 - 1\<rparr>
                else if dir = 1 then p0\<lparr>x := x p0 + 1\<rparr>
                else if dir = 2 then p0\<lparr>y := y p0 + 1\<rparr>
                else if dir = 3 then p0\<lparr>x := x p0 - 1\<rparr>
                else p0)
      in \<lparr>x = wrap tileCount (x p1), y = wrap tileCount (y p1)\<rparr>)"

definition validMove :: "state \<Rightarrow> nat \<Rightarrow> point \<Rightarrow> bool" where
  "validMove s i newPosition =
     (\<not> occupies (snake s) newPosition
      \<and> \<not> (x (food s) = x newPosition \<and> y (food s) = y newPosition)
      \<and> \<not> otherObstacle (obstacles s) i newPosition)"

function moveAttempts ::
  "int \<Rightarrow> (nat \<Rightarrow> real) \<Rightarrow> state \<Rightarrow> nat \<Rightarrow> nat \<Rightarrow> nat \<Rightarrow> point option \<times> nat" where
  "moveAttempts tileCount rnd s i attempts d =
     (if attempts < maxAttempts then
        (let newPosition = moveCandidate tileCount (rnd d) (obstacles s ! i);
             validPosition = validMove s i newPosition
         in if validPosition then (Some newPosition, d + 1)
            else moveAttempts tileCount rnd s i (attempts + 1) (d + 1))
      else (None, d))"
  by pat_completeness auto
termination
  by (relation "measure (\<lambda>(tileCount, rnd, s, i, attempts, d). maxAttempts - attempts)") auto

declare moveAttempts.simps [simp del]

text \<open>
  The callback of \<^verbatim>\<open>obstacles.forEach\<close> for the obstacle at index \<open>i\<close>; it writes the new
  coordinates into the obstacle itself. \<^verbatim>\<open>forEach\<close> calls it for the indices of the array
  only; for any other index the model leaves the state as it is.
\<close>

definition moveObstacle :: "int \<Rightarrow> (nat \<Rightarrow> real) \<Rightarrow> nat \<Rightarrow> state \<Rightarrow> state" where
  "moveObstacle tileCount rnd i s =
     (if i < length (obstacles s) then
        (if rnd (draws s) < 0.2 then
           (case moveAttempts tileCount rnd s i 0 (draws s + 1) of
              (Some newPosition, d) \<Rightarrow> s\<lparr>obstacles := (obstacles s)[i := newPosition], draws := d\<rparr>
            | (None, d) \<Rightarrow> s\<lparr>draws := d\<rparr>)
         else s\<lparr>draws := draws s + 1\<rparr>)
      else s)"

definition moveObstacles :: "int \<Rightarrow> (nat \<Rightarrow> real) \<Rightarrow> state \<Rightarrow> state" where
  "moveObstacles tileCount rnd s =
     fold (moveObstacle tileCount rnd) [0..<length (obstacles s)] s"

text \<open>The last step of a tick: \<^verbatim>\<open>if (score >= 200) { moveObstacles(); }\<close>.\<close>

definition obstaclePhase :: "int \<Rightarrow> (nat \<Rightarrow> real) \<Rightarrow> state \<Rightarrow> state" where
  "obstaclePhase tileCount rnd s = (if score s \<ge> 200 then moveObstacles tileCount rnd s else s)"

subsection \<open>Lifecycle and the tick\<close>

definition endGame :: "state \<Rightarrow> state" where
  "endGame s = s\<lparr>gameLoop := None\<rparr>"

definition resetGame :: "int \<Rightarrow> (nat \<Rightarrow> real) \<Rightarrow> state \<Rightarrow> state option" where
  "resetGame tileCount rnd s =
     (let s1 = s\<lparr>snake := [\<lparr>x = 10, y = 10\<rparr>], direction := \<lparr>x = 0, y = 0\<rparr>, score := 0,
                 obstacles := [], gameSpeed := 150\<rparr>
      in case spawnFood tileCount rnd s1 of
           None \<Rightarrow> None
         | Some s2 \<Rightarrow> Some (s2\<lparr>gameLoop := Some (gameSpeed s2), isPaused := False\<rparr>))"

definition startGame :: "int \<Rightarrow> (nat \<Rightarrow> real) \<Rightarrow> state \<Rightarrow> state option" where
  "startGame tileCount rnd s =
     (if gameLoop s = None then Some (s\<lparr>gameSpeed := 150, gameLoop := Some 150\<rparr>)
      else resetGame tileCount rnd s)"

definition togglePause :: "state \<Rightarrow> state" where
  "togglePause s = (if gameLoop s \<noteq> None then s\<lparr>isPaused := \<not> isPaused s\<rparr> else s)"

text \<open>\<^verbatim>\<open>update\<close>, the callback of the interval: one tick.\<close>

definition update :: "int \<Rightarrow> (nat \<Rightarrow> real) \<Rightarrow> state \<Rightarrow> (error + state) option" where
  "update tileCount rnd s =
     (if isPaused s then Some (Inr s)
      else case moveSnake tileCount s of
        Inl e \<Rightarrow> Some (Inl e)
      | Inr s1 \<Rightarrow>
         (case checkCollision s1 of
            Inl e \<Rightarrow> Some (Inl e)
          | Inr True \<Rightarrow> Some (Inr (endGame s1))
          | Inr False \<Rightarrow>
             (case checkFoodCollision s1 of
                Inl e \<Rightarrow> Some (Inl e)
              | Inr ate \<Rightarrow>
                 (case (if ate then eatFood tileCount rnd s1 else Some (Inr s1)) of
                    None \<Rightarrow> None
                  | Some (Inl e) \<Rightarrow> Some (Inl e)
                  | Some (Inr s2) \<Rightarrow>
                      Some (Inr (obstaclePhase tileCount rnd s2))))))"

subsection \<open>Reachable states\<close>

text \<open>
  The states the page can be in: the loaded script, followed by any sequence of key presses,
  clicks on the three buttons, and ticks. A tick needs a running interval. Steps on which a
  spawner loops forever or the script throws lead nowhere.
\<close>

inductive reachable :: "int \<Rightarrow> (nat \<Rightarrow> real) \<Rightarrow> state \<Rightarrow> bool"
  for tileCount :: int and rnd :: "nat \<Rightarrow> real" where
  loaded: "reachable tileCount rnd (initial hs)"
| key: "reachable tileCount rnd s \<Longrightarrow> reachable tileCount rnd (handleKeyPress k s)"
| start: "reachable tileCount rnd s \<Longrightarrow> startGame tileCount rnd s = Some s'
          \<Longrightarrow> reachable tileCount rnd s'"
| pause: "reachable tileCount rnd s \<Longrightarrow> reachable tileCount rnd (togglePause s)"
| restart: "reachable tileCount rnd s \<Longrightarrow> resetGame tileCount rnd s = Some s'
            \<Longrightarrow> reachable tileCount rnd s'"
| tick: "reachable tileCount rnd s \<Longrightarrow> gameLoop s \<noteq> None
         \<Longrightarrow> update tileCount rnd s = Some (Inr s') \<Longrightarrow> reachable tileCount rnd s'"

text \<open>
  A run of the page, as the list of its events, replayed from a state: \<open>step\<close> calls the
  handler of one event, a tick needing a running interval. A run has no result when a
  spawner does not return or the script throws.
\<close>

datatype event = Key string | Start | Pause | Restart | Tick

fun step :: "int \<Rightarrow> (nat \<Rightarrow> real) \<Rightarrow> state \<Rightarrow> event \<Rightarrow> state option" where
  "step tileCount rnd s (Key k) = Some (handleKeyPress k s)"
| "step tileCount rnd s Start = startGame tileCount rnd s"
| "step tileCount rnd s Pause = Some (togglePause s)"
| "step tileCount rnd s Restart = resetGame tileCount rnd s"
| "step tileCount rnd s Tick =
     (if gameLoop s = None then None
      else case update tileCount rnd s of Some (Inr s') \<Rightarrow> Some s' | _ \<Rightarrow> None)"

fun play :: "int \<Rightarrow> (nat \<Rightarrow> real) \<Rightarrow> state \<Rightarrow> event list \<Rightarrow> state option" where
  "play tileCount rnd s [] = Some s"
| "play tileCount rnd s (e # es) =
     (case step tileCount rnd s e of None \<Rightarrow> None | Some s' \<Rightarrow> play tileCount rnd s' es)"

subsection \<open>Outcomes of a tick\<close>

text \<open>
  The branch a tick takes from a state: \<open>collides\<close> when \<^verbatim>\<open>update\<close> reaches \<^verbatim>\<open>endGame()\<close>,
  \<open>eats\<close> when it reaches \<^verbatim>\<open>eatFood()\<close>.
\<close>

definition collides :: "int \<Rightarrow> state \<Rightarrow> bool" where
  "collides tileCount s =
     (\<not> isPaused s \<and>
      (case moveSnake tileCount s of
         Inl e \<Rightarrow> False
       | Inr s1 \<Rightarrow> checkCollision s1 = Inr True))"

definition eats :: "int \<Rightarrow> state \<Rightarrow> bool" where
  "eats tileCount s =
     (\<not> isPaused s \<and>
      (case moveSnake tileCount s of
         Inl e \<Rightarrow> False
       | Inr s1 \<Rightarrow> checkCollision s1 = Inr False \<and> checkFoodCollision s1 = Inr True))"

text \<open>
  The two assignments of \<^verbatim>\<open>eatFood\<close> around its spawner calls, as state transformers:
  \<open>scored\<close> is the score, the high score and the \<^verbatim>\<open>push\<close> of the tail's copy; \<open>sped\<close> is the
  speed-up with its rescheduled interval.
\<close>

definition scored :: "state \<Rightarrow> state" where
  "scored s = s\<lparr>score := score s + 10,
                highScore := (if score s + 10 > highScore s then score s + 10 else highScore s),
                snake := snake s @ [last (snake s)]\<rparr>"

definition sped :: "state \<Rightarrow> state" where
  "sped s = (if gameSpeed s > minSpeed
             then s\<lparr>gameSpeed := max minSpeed (gameSpeed s - speedIncrement),
                    gameLoop := Some (max minSpeed (gameSpeed s - speedIncrement))\<rparr>
             else s)"

subsection \<open>States reachable during play\<close>

text \<open>
  \<open>played tileCount rnd over s\<close>: the page reaches \<open>s\<close> as in \<open>reachable\<close>, with one
  restriction. \<open>over\<close> says that the last tick has called \<^verbatim>\<open>endGame()\<close> and no reset has
  followed: the game is over. In such a state a click on Start is left out: there
  \<^verbatim>\<open>startGame\<close> takes its branch \<^verbatim>\<open>if (!gameLoop)\<close>, which restarts the interval on the
  snake of the game that has ended.
\<close>

inductive played :: "int \<Rightarrow> (nat \<Rightarrow> real) \<Rightarrow> bool \<Rightarrow> state \<Rightarrow> bool"
  for tileCount :: int and rnd :: "nat \<Rightarrow> real" where
  loaded: "played tileCount rnd False (initial hs)"
| key: "played tileCount rnd over s \<Longrightarrow> played tileCount rnd over (handleKeyPress k s)"
| pause: "played tileCount rnd over s \<Longrightarrow> played tileCount rnd over (togglePause s)"
| restart: "played tileCount rnd over s \<Longrightarrow> resetGame tileCount rnd s = Some s'
            \<Longrightarrow> played tileCount rnd False s'"
| start: "played tileCount rnd False s \<Longrightarrow> startGame tileCount rnd s = Some s'
          \<Longrightarrow> played tileCount rnd False s'"
| tick: "played tileCount rnd False s \<Longrightarrow> gameLoop s \<noteq> None
         \<Longrightarrow> update tileCount rnd s = Some (Inr s')
         \<Longrightarrow> played tileCount rnd (collides tileCount s) s'"

subsection \<open>Notions of the grid\<close>

text \<open>A cell of the grid, and the four cells next to a cell, across the edges.\<close>

definition inGrid :: "int \<Rightarrow> point \<Rightarrow> bool" where
  "inGrid tileCount p = (0 \<le> x p \<and> x p < tileCount \<and> 0 \<le> y p \<and> y p < tileCount)"

definition wrapNeighbour :: "int \<Rightarrow> point \<Rightarrow> point \<Rightarrow> bool" where
  "wrapNeighbour tileCount p q =
     (q = \<lparr>x = x p, y = (y p - 1) mod tileCount\<rparr>
      \<or> q = \<lparr>x = (x p + 1) mod tileCount, y = y p\<rparr>
      \<or> q = \<lparr>x = x p, y = (y p + 1) mod tileCount\<rparr>
      \<or> q = \<lparr>x = (x p - 1) mod tileCount, y = y p\<rparr>)"

text \<open>The cell a round of a spawner computes from the random values \<open>d\<close> and \<open>d + 1\<close>.\<close>

definition drawnCell :: "int \<Rightarrow> (nat \<Rightarrow> real) \<Rightarrow> nat \<Rightarrow> point" where
  "drawnCell tileCount rnd d =
     \<lparr>x = \<lfloor>rnd d * of_int tileCount\<rfloor>, y = \<lfloor>rnd (d + 1) * of_int tileCount\<rfloor>\<rparr>"

text \<open>
  When the spawners of a tick that eats return. The occupied cells are those of the moved
  snake (the cell of the food, where the head is, and the old segments without the last)
  and of the obstacles; \<open>cell k\<close> is the cell drawn in round \<open>k\<close> after the state's draws.
  With no obstacle due, \<^verbatim>\<open>spawnFood\<close> needs a round that draws a free cell. With an obstacle
  due, \<^verbatim>\<open>spawnObstacle\<close> needs a round \<open>k1\<close> that draws a free cell, and \<^verbatim>\<open>spawnFood\<close> a later
  round \<open>k2\<close> that draws a free cell other than the new obstacle, which is among the cells
  of the rounds up to \<open>k1\<close>.
\<close>

definition spawnsReturn :: "int \<Rightarrow> (nat \<Rightarrow> real) \<Rightarrow> state \<Rightarrow> bool" where
  "spawnsReturn tileCount rnd s =
     (let occupied = insert (food s) (set (butlast (snake s)) \<union> set (obstacles s));
          cell = (\<lambda>k. drawnCell tileCount rnd (draws s + 2 * k))
      in if score s + 10 \<ge> 50 \<and> (score s + 10) mod 50 = 0
         then \<exists>k1 k2. k1 < k2 \<and> cell k1 \<notin> occupied \<and> cell k2 \<notin> occupied
                \<and> (\<forall>j\<le>k1. cell k2 \<noteq> cell j)
         else \<exists>k. cell k \<notin> occupied)"

text \<open>
  \<open>beforeObstacle\<close> is the state in which \<^verbatim>\<open>forEach\<close> calls its callback for index \<open>i\<close>: the
  obstacles before it have had their turn. \<open>noValidCandidate\<close> says that the ten positions
  the attempts for obstacle \<open>i\<close> would compute in a state are all invalid.
\<close>

definition beforeObstacle :: "int \<Rightarrow> (nat \<Rightarrow> real) \<Rightarrow> state \<Rightarrow> nat \<Rightarrow> state" where
  "beforeObstacle tileCount rnd s i = fold (moveObstacle tileCount rnd) [0..<i] s"

definition noValidCandidate :: "int \<Rightarrow> (nat \<Rightarrow> real) \<Rightarrow> state \<Rightarrow> nat \<Rightarrow> bool" where
  "noValidCandidate tileCount rnd s i =
     list_all (\<lambda>a. \<not> validMove s i (moveCandidate tileCount (rnd (draws s + 1 + a)) (obstacles s ! i)))
       [0..<maxAttempts]"

text \<open>
  What the obstacle at index \<open>i\<close> of \<open>obs'\<close> may be after the obstacles of \<open>s\<close> were moved: where
  it was, or on a neighbouring cell that is free of the snake, the food and every other
  obstacle of \<open>obs'\<close>.
\<close>

definition movedOrSame :: "int \<Rightarrow> state \<Rightarrow> point list \<Rightarrow> nat \<Rightarrow> bool" where
  "movedOrSame tileCount s obs' i =
     (obs' ! i = obstacles s ! i
      \<or> (wrapNeighbour tileCount (obstacles s ! i) (obs' ! i)
         \<and> obs' ! i \<notin> set (snake s) \<and> obs' ! i \<noteq> food s
         \<and> (\<forall>j<length obs'. j \<noteq> i \<longrightarrow> obs' ! j \<noteq> obs' ! i)))"

subsection \<open>Example runs\<close>

text \<open>
  A random source for a grid of 20 tiles: the first four values put the food of a restart on
  \<open>(11, 10)\<close>, next to the snake, and the next food on \<open>(12, 10)\<close>; all later values are
  \<open>1/4\<close>, the tile 5.
\<close>

definition rndExample :: "nat \<Rightarrow> real" where
  "rndExample n =
     (if n = 0 then 11 / 20 else if n = 1 then 1 / 2
      else if n = 2 then 3 / 5 else if n = 3 then 1 / 2 else 1 / 4)"

text \<open>
  \<open>eatState\<close>: the page after a click on Restart and the key ArrowRight, with \<open>rndExample\<close>.
  \<open>eatenState\<close>: the same game one tick later, the snake having eaten.
\<close>

definition eatState :: state where
  "eatState =
     \<lparr>snake = [\<lparr>x = 10, y = 10\<rparr>], direction = \<lparr>x = 1, y = 0\<rparr>, food = \<lparr>x = 11, y = 10\<rparr>,
      obstacles = [], score = 0, highScore = 0, gameLoop = Some 150, isPaused = False,
      gameSpeed = 150, draws = 2\<rparr>"

definition eatenState :: state where
  "eatenState =
     \<lparr>snake = [\<lparr>x = 11, y = 10\<rparr>, \<lparr>x = 11, y = 10\<rparr>], direction = \<lparr>x = 1, y = 0\<rparr>,
      food = \<lparr>x = 12, y = 10\<rparr>, obstacles = [], score = 10, highScore = 10,
      gameLoop = Some 145, isPaused = False, gameSpeed = 145, draws = 4\<rparr>"

text \<open>
  The game goes on. \<open>grownState\<close>: one more tick, the snake having eaten again.
  \<open>turnState\<close>: one more tick, the snake of three segments moving right. \<open>overState\<close>: the
  page after the keys ArrowUp and ArrowLeft and one more tick: the head has run into the
  second segment, the game is over.
\<close>

definition grownState :: state where
  "grownState =
     \<lparr>snake = [\<lparr>x = 12, y = 10\<rparr>, \<lparr>x = 11, y = 10\<rparr>, \<lparr>x = 11, y = 10\<rparr>],
      direction = \<lparr>x = 1, y = 0\<rparr>, food = \<lparr>x = 5, y = 5\<rparr>, obstacles = [], score = 20,
      highScore = 20, gameLoop = Some 140, isPaused = False, gameSpeed = 140, draws = 6\<rparr>"

definition turnState :: state where
  "turnState =
     \<lparr>snake = [\<lparr>x = 13, y = 10\<rparr>, \<lparr>x = 12, y = 10\<rparr>, \<lparr>x = 11, y = 10\<rparr>],
      direction = \<lparr>x = 1, y = 0\<rparr>, food = \<lparr>x = 5, y = 5\<rparr>, obstacles = [], score = 20,
      highScore = 20, gameLoop = Some 140, isPaused = False, gameSpeed = 140, draws = 6\<rparr>"

definition overState :: state where
  "overState =
     \<lparr>snake = [\<lparr>x = 12, y = 10\<rparr>, \<lparr>x = 13, y = 10\<rparr>, \<lparr>x = 12, y = 10\<rparr>],
      direction = \<lparr>x = -1, y = 0\<rparr>, food = \<lparr>x = 5, y = 5\<rparr>, obstacles = [], score = 20,
      highScore = 20, gameLoop = None, isPaused = False, gameSpeed = 140, draws = 6\<rparr>"

text \<open>
  \<open>stuckState\<close>: from \<open>grownState\<close>, the key ArrowUp, five ticks, the key ArrowLeft and six
  ticks. The head is next to the food on \<open>(5, 5)\<close>, the cell of every further draw of
  \<open>rndExample\<close>.
\<close>

definition stuckState :: state where
  "stuckState =
     \<lparr>snake = [\<lparr>x = 6, y = 5\<rparr>, \<lparr>x = 7, y = 5\<rparr>, \<lparr>x = 8, y = 5\<rparr>],
      direction = \<lparr>x = -1, y = 0\<rparr>, food = \<lparr>x = 5, y = 5\<rparr>, obstacles = [], score = 20,
      highScore = 20, gameLoop = Some 140, isPaused = False, gameSpeed = 140, draws = 6\<rparr>"

text \<open>
  A longer game on a grid of 20 tiles. With the random values \<open>gameDraws\<close> (and \<open>1/2\<close> after
  them) every food appears on the cell in front of the head, so every tick eats: the snake
  goes right along row 10 to the edge, then down column 19 and across the lower edge. The
  obstacles of the scores 50, 100, 150 and 200 appear on \<open>(0, 5)\<close>, \<open>(1, 5)\<close>, \<open>(2, 5)\<close> and
  \<open>(3, 5)\<close>. \<open>game4\<close>: the page after Restart, ArrowRight and four ticks. \<open>game5\<close>: one tick
  later, with the first obstacle. \<open>game20\<close>: after twenty foods, the tick interval at its
  floor. \<open>game21\<close>: one tick later.
\<close>

definition gameDraws :: "real list" where
  "gameDraws =
     [11 / 20, 1 / 2, 3 / 5, 1 / 2, 13 / 20, 1 / 2, 7 / 10, 1 / 2, 3 / 4, 1 / 2, 0,
      1 / 4, 4 / 5, 1 / 2, 17 / 20, 1 / 2, 9 / 10, 1 / 2, 19 / 20, 1 / 2, 19 / 20,
      11 / 20, 1 / 20, 1 / 4, 19 / 20, 3 / 5, 19 / 20, 13 / 20, 19 / 20, 7 / 10,
      19 / 20, 3 / 4, 19 / 20, 4 / 5, 1 / 10, 1 / 4, 19 / 20, 17 / 20, 19 / 20,
      9 / 10, 19 / 20, 19 / 20, 19 / 20, 0, 19 / 20, 1 / 20, 3 / 20, 1 / 4,
      19 / 20, 1 / 10, 1 / 2, 1 / 2, 1 / 2, 1 / 2, 19 / 20, 3 / 20, 1 / 2, 1 / 2,
      1 / 2, 1 / 2]"

definition rndGame :: "nat \<Rightarrow> real" where
  "rndGame n = (if n < length gameDraws then gameDraws ! n else 1 / 2)"

definition game4 :: state where
  "game4 =
     \<lparr>snake = [\<lparr>x = 14, y = 10\<rparr>, \<lparr>x = 13, y = 10\<rparr>,
               \<lparr>x = 12, y = 10\<rparr>, \<lparr>x = 11, y = 10\<rparr>,
               \<lparr>x = 11, y = 10\<rparr>],
      direction = \<lparr>x = 1, y = 0\<rparr>, food = \<lparr>x = 15, y = 10\<rparr>,
      obstacles = [],
      score = 40, highScore = 40, gameLoop = Some 130, isPaused = False, gameSpeed = 130,
      draws = 10\<rparr>"

definition game5 :: state where
  "game5 =
     \<lparr>snake = [\<lparr>x = 15, y = 10\<rparr>, \<lparr>x = 14, y = 10\<rparr>,
               \<lparr>x = 13, y = 10\<rparr>, \<lparr>x = 12, y = 10\<rparr>,
               \<lparr>x = 11, y = 10\<rparr>, \<lparr>x = 11, y = 10\<rparr>],
      direction = \<lparr>x = 1, y = 0\<rparr>, food = \<lparr>x = 16, y = 10\<rparr>,
      obstacles = [\<lparr>x = 0, y = 5\<rparr>],
      score = 50, highScore = 50, gameLoop = Some 125, isPaused = False, gameSpeed = 125,
      draws = 14\<rparr>"

definition game20 :: state where
  "game20 =
     \<lparr>snake = [\<lparr>x = 19, y = 1\<rparr>, \<lparr>x = 19, y = 0\<rparr>,
               \<lparr>x = 19, y = 19\<rparr>, \<lparr>x = 19, y = 18\<rparr>,
               \<lparr>x = 19, y = 17\<rparr>, \<lparr>x = 19, y = 16\<rparr>,
               \<lparr>x = 19, y = 15\<rparr>, \<lparr>x = 19, y = 14\<rparr>,
               \<lparr>x = 19, y = 13\<rparr>, \<lparr>x = 19, y = 12\<rparr>,
               \<lparr>x = 19, y = 11\<rparr>, \<lparr>x = 19, y = 10\<rparr>,
               \<lparr>x = 18, y = 10\<rparr>, \<lparr>x = 17, y = 10\<rparr>,
               \<lparr>x = 16, y = 10\<rparr>, \<lparr>x = 15, y = 10\<rparr>,
               \<lparr>x = 14, y = 10\<rparr>, \<lparr>x = 13, y = 10\<rparr>,
               \<lparr>x = 12, y = 10\<rparr>, \<lparr>x = 11, y = 10\<rparr>,
               \<lparr>x = 11, y = 10\<rparr>],
      direction = \<lparr>x = 0, y = 1\<rparr>, food = \<lparr>x = 19, y = 2\<rparr>,
      obstacles = [\<lparr>x = 0, y = 5\<rparr>, \<lparr>x = 1, y = 5\<rparr>,
                   \<lparr>x = 2, y = 5\<rparr>, \<lparr>x = 3, y = 5\<rparr>],
      score = 200, highScore = 200, gameLoop = Some 50, isPaused = False, gameSpeed = 50,
      draws = 54\<rparr>"

definition game21 :: state where
  "game21 =
     \<lparr>snake = [\<lparr>x = 19, y = 2\<rparr>, \<lparr>x = 19, y = 1\<rparr>,
               \<lparr>x = 19, y = 0\<rparr>, \<lparr>x = 19, y = 19\<rparr>,
               \<lparr>x = 19, y = 18\<rparr>, \<lparr>x = 19, y = 17\<rparr>,
               \<lparr>x = 19, y = 16\<rparr>, \<lparr>x = 19, y = 15\<rparr>,
               \<lparr>x = 19, y = 14\<rparr>, \<lparr>x = 19, y = 13\<rparr>,
               \<lparr>x = 19, y = 12\<rparr>, \<lparr>x = 19, y = 11\<rparr>,
               \<lparr>x = 19, y = 10\<rparr>, \<lparr>x = 18, y = 10\<rparr>,
               \<lparr>x = 17, y = 10\<rparr>, \<lparr>x = 16, y = 10\<rparr>,
               \<lparr>x = 15, y = 10\<rparr>, \<lparr>x = 14, y = 10\<rparr>,
               \<lparr>x = 13, y = 10\<rparr>, \<lparr>x = 12, y = 10\<rparr>,
               \<lparr>x = 11, y = 10\<rparr>, \<lparr>x = 11, y = 10\<rparr>],
      direction = \<lparr>x = 0, y = 1\<rparr>, food = \<lparr>x = 19, y = 3\<rparr>,
      obstacles = [\<lparr>x = 0, y = 5\<rparr>, \<lparr>x = 1, y = 5\<rparr>,
                   \<lparr>x = 2, y = 5\<rparr>, \<lparr>x = 3, y = 5\<rparr>],
      score = 210, highScore = 210, gameLoop = Some 50, isPaused = False, gameSpeed = 50,
      draws = 60\<rparr>"

text \<open>
  \<open>resumedState\<close>: from \<open>game4\<close>, the keys ArrowUp and ArrowLeft, the tick that runs the head
  into the third segment and ends the game, and a click on Start.
\<close>

definition resumedState :: state where
  "resumedState =
     \<lparr>snake = [\<lparr>x = 13, y = 10\<rparr>, \<lparr>x = 14, y = 10\<rparr>, \<lparr>x = 13, y = 10\<rparr>,
               \<lparr>x = 12, y = 10\<rparr>, \<lparr>x = 11, y = 10\<rparr>],
      direction = \<lparr>x = -1, y = 0\<rparr>, food = \<lparr>x = 15, y = 10\<rparr>, obstacles = [],
      score = 40, highScore = 40, gameLoop = Some 150, isPaused = False, gameSpeed = 150,
      draws = 10\<rparr>"

text \<open>
  \<open>hardState\<close>: a game at score 200 with two obstacles in the corner column, one above the
  other across the edge. With every random value \<open>1/10\<close> each obstacle tries to move, and
  always up.
\<close>

definition rndTenth :: "nat \<Rightarrow> real" where
  "rndTenth n = 1 / 10"

definition hardState :: state where
  "hardState =
     \<lparr>snake = [\<lparr>x = 10, y = 10\<rparr>], direction = \<lparr>x = 1, y = 0\<rparr>, food = \<lparr>x = 15, y = 15\<rparr>,
      obstacles = [\<lparr>x = 0, y = 0\<rparr>, \<lparr>x = 0, y = 19\<rparr>], score = 200, highScore = 200,
      gameLoop = Some 50, isPaused = False, gameSpeed = 50, draws = 0\<rparr>"

section \<open>Properties\<close>

subsection \<open>Basic facts\<close>

text \<open>Two positions are equal when their coordinates are, which is what the script compares.\<close>

lemma point_eq_iff: "(x p = x q \<and> y p = y q) = (p = (q::point))"
  by (cases p, cases q) auto

lemma occupies_iff: "occupies arr p = (p \<in> set arr)"
  by (auto simp: occupies_def list_ex_iff point_eq_iff)

lemma point_eta [simp]: "\<lparr>x = x p, y = y p\<rparr> = (p::point)"
  by (cases p) simp

text \<open>On a coordinate of the grid moved by at most one step, the wrap is the modulus.\<close>

lemma wrap_mod:
  assumes "0 \<le> v" "v < n" "d = -1 \<or> d = 0 \<or> d = 1"
  shows "wrap n (v + d) = (v + d + n) mod n"
proof -
  consider "v + d = -1" | "v + d = n" | "0 \<le> v + d \<and> v + d < n"
    using assms by linarith
  then show ?thesis
  proof cases
    case 1
    then have "wrap n (v + d) = n - 1" using assms by (simp add: wrap_def)
    moreover have "(n - 1) mod n = n - 1"
      using assms by (intro mod_pos_pos_trivial) linarith+
    then have "(v + d + n) mod n = n - 1" using 1 by (simp add: algebra_simps)
    ultimately show ?thesis by simp
  next
    case 2
    then show ?thesis using assms by (simp add: wrap_def)
  next
    case 3
    then show ?thesis by (simp add: wrap_def)
  qed
qed

subsection \<open>Motion\<close>

text \<open>
  Claim C4. For a head \<open>(x, y)\<close> on the grid, \<open>0 \<le> x, y < N\<close>, and each of the five directions
  \<open>(dx, dy)\<close>, \<^verbatim>\<open>moveSnake\<close> puts the new head \<open>((x + dx + N) mod N, (y + dy + N) mod N)\<close> in
  front of the snake (whose last segment it drops in the same call). At the four edges this
  is the opposite edge: from \<open>x = 0\<close> going left to \<open>N - 1\<close>, from \<open>x = N - 1\<close> going right to
  \<open>0\<close>, and the same for \<open>y\<close>.
\<close>

theorem moveSnake_wraps:
  assumes "snake s = h # rest"
    and "0 \<le> x h" "x h < N" "0 \<le> y h" "y h < N"
    and "direction s \<in> {\<lparr>x = 0, y = -1\<rparr>, \<lparr>x = 0, y = 1\<rparr>, \<lparr>x = -1, y = 0\<rparr>,
                          \<lparr>x = 1, y = 0\<rparr>, \<lparr>x = 0, y = 0\<rparr>}"
  shows "moveSnake N s =
           Inr (s\<lparr>snake := \<lparr>x = (x h + x (direction s) + N) mod N,
                             y = (y h + y (direction s) + N) mod N\<rparr> # butlast (snake s)\<rparr>)
         \<and> (x h = 0 \<longrightarrow> (x h + (-1) + N) mod N = N - 1)
         \<and> (x h = N - 1 \<longrightarrow> (x h + 1 + N) mod N = 0)
         \<and> (y h = 0 \<longrightarrow> (y h + (-1) + N) mod N = N - 1)
         \<and> (y h = N - 1 \<longrightarrow> (y h + 1 + N) mod N = 0)"
proof -
  have dx: "x (direction s) = -1 \<or> x (direction s) = 0 \<or> x (direction s) = 1"
    using assms(6) by auto
  have dy: "y (direction s) = -1 \<or> y (direction s) = 0 \<or> y (direction s) = 1"
    using assms(6) by auto
  have move: "moveSnake N s =
           Inr (s\<lparr>snake := \<lparr>x = (x h + x (direction s) + N) mod N,
                             y = (y h + y (direction s) + N) mod N\<rparr> # butlast (snake s)\<rparr>)"
    using assms(1) wrap_mod [OF assms(2,3) dx] wrap_mod [OF assms(4,5) dy]
    by (simp add: moveSnake_def)
  have low: "(N - 1) mod N = N - 1"
    using assms(2,3) by (intro mod_pos_pos_trivial) linarith+
  have edges: "(0 + (-1) + N) mod N = N - 1" "(N - 1 + 1 + N) mod N = 0"
    using low by (simp_all add: algebra_simps)
  show ?thesis
    using move edges by auto
qed

theorem moveSnake_wraps_witness:
  "moveSnake 20 ((initial 0)\<lparr>snake := [\<lparr>x = 0, y = 7\<rparr>, \<lparr>x = 1, y = 7\<rparr>],
                              direction := \<lparr>x = -1, y = 0\<rparr>\<rparr>)
   = Inr ((initial 0)\<lparr>snake := [\<lparr>x = 19, y = 7\<rparr>, \<lparr>x = 0, y = 7\<rparr>],
                        direction := \<lparr>x = -1, y = 0\<rparr>\<rparr>)"
  using moveSnake_wraps [of "(initial 0)\<lparr>snake := [\<lparr>x = 0, y = 7\<rparr>, \<lparr>x = 1, y = 7\<rparr>],
                                        direction := \<lparr>x = -1, y = 0\<rparr>\<rparr>"
                            "\<lparr>x = 0, y = 7\<rparr>" "[\<lparr>x = 1, y = 7\<rparr>]" 20]
  by (simp add: initial_def)

subsection \<open>Collision detection\<close>

lemma selfCollision_iff:
  "selfCollision head sn i = (\<exists>j. i \<le> j \<and> j < length sn \<and> sn ! j = head)"
proof (induction head sn i rule: selfCollision.induct)
  case (1 head sn i)
  show ?case
  proof (cases "i < length sn")
    case False
    then show ?thesis by (subst selfCollision.simps) auto
  next
    case True
    show ?thesis
    proof (cases "sn ! i = head")
      case True
      with \<open>i < length sn\<close> show ?thesis
        by (subst selfCollision.simps) auto
    next
      case False
      then have ne: "\<not> (x head = x (sn ! i) \<and> y head = y (sn ! i))"
        by (auto simp: point_eq_iff)
      have "selfCollision head sn i = selfCollision head sn (i + 1)"
        by (subst selfCollision.simps) (use True ne in auto)
      also have "\<dots> = (\<exists>j. i + 1 \<le> j \<and> j < length sn \<and> sn ! j = head)"
        using 1 True ne by simp
      also have "\<dots> = (\<exists>j. i \<le> j \<and> j < length sn \<and> sn ! j = head)"
      proof -
        have "(i + 1 \<le> j \<and> j < length sn \<and> sn ! j = head)
              = (i \<le> j \<and> j < length sn \<and> sn ! j = head)" for j
          using False by (cases "j = i") auto
        then show ?thesis by simp
      qed
      finally show ?thesis .
    qed
  qed
qed

lemma selfCollision_body:
  "selfCollision head (h # body) (Suc 0) = (head \<in> set body)"
proof -
  have "(\<exists>j. Suc 0 \<le> j \<and> j < length (h # body) \<and> (h # body) ! j = head)
        = (\<exists>k. k < length body \<and> body ! k = head)"
  proof
    assume "\<exists>j. Suc 0 \<le> j \<and> j < length (h # body) \<and> (h # body) ! j = head"
    then obtain j where j: "Suc 0 \<le> j" "j < length (h # body)" "(h # body) ! j = head" by blast
    then have "j - 1 < length body \<and> body ! (j - 1) = head"
      by (cases j) auto
    then show "\<exists>k. k < length body \<and> body ! k = head" by blast
  next
    assume "\<exists>k. k < length body \<and> body ! k = head"
    then obtain k where "k < length body" "body ! k = head" by blast
    then have "Suc 0 \<le> Suc k \<and> Suc k < length (h # body) \<and> (h # body) ! Suc k = head" by simp
    then show "\<exists>j. Suc 0 \<le> j \<and> j < length (h # body) \<and> (h # body) ! j = head" by blast
  qed
  then show ?thesis
    by (simp add: selfCollision_iff in_set_conv_nth)
qed

lemma obstacleCollision_iff: "obstacleCollision head obs = (head \<in> set obs)"
  by (induction obs) (auto simp: point_eq_iff)

lemma checkCollision_nonempty:
  "snake s = head # body \<Longrightarrow>
   checkCollision s = Inr (head \<in> set body \<or> head \<in> set (obstacles s))"
  by (simp add: checkCollision_def selfCollision_body obstacleCollision_iff)

text \<open>
  Claim C5. \<^verbatim>\<open>checkCollision\<close> returns true exactly when the head is equal to a segment
  behind it or to an obstacle. Neither the grid size nor the place of the head on the grid
  enters the result: a head on an edge, away from the body and the obstacles, is no collision.
\<close>

theorem checkCollision_iff:
  "snake s = head # body \<Longrightarrow>
   checkCollision s = Inr (head \<in> set body \<or> head \<in> set (obstacles s))"
  by (rule checkCollision_nonempty)

theorem checkCollision_iff_witness:
  "checkCollision ((initial 0)\<lparr>snake := [\<lparr>x = 0, y = 0\<rparr>, \<lparr>x = 1, y = 0\<rparr>],
                                obstacles := [\<lparr>x = 19, y = 0\<rparr>]\<rparr>) = Inr False
   \<and> checkCollision ((initial 0)\<lparr>snake := [\<lparr>x = 3, y = 4\<rparr>, \<lparr>x = 1, y = 0\<rparr>],
                                  obstacles := [\<lparr>x = 3, y = 4\<rparr>]\<rparr>) = Inr True"
  using checkCollision_iff [of "(initial 0)\<lparr>snake := [\<lparr>x = 0, y = 0\<rparr>, \<lparr>x = 1, y = 0\<rparr>],
                                            obstacles := [\<lparr>x = 19, y = 0\<rparr>]\<rparr>"
                               "\<lparr>x = 0, y = 0\<rparr>" "[\<lparr>x = 1, y = 0\<rparr>]"]
        checkCollision_iff [of "(initial 0)\<lparr>snake := [\<lparr>x = 3, y = 4\<rparr>, \<lparr>x = 1, y = 0\<rparr>],
                                            obstacles := [\<lparr>x = 3, y = 4\<rparr>]\<rparr>"
                               "\<lparr>x = 3, y = 4\<rparr>" "[\<lparr>x = 1, y = 0\<rparr>]"]
  by (simp add: initial_def)

subsection \<open>Keyboard input\<close>

text \<open>
  Claim C9. A key whose direction is the reverse of the current direction (which is then one
  of the four directions of motion) changes nothing: \<^verbatim>\<open>handleKeyPress\<close> returns the state
  it was given.
\<close>

theorem reverse_key_ignored:
  assumes "keyDirection key = Some d"
    and "direction s = \<lparr>x = - x d, y = - y d\<rparr>"
  shows "handleKeyPress key s = s"
proof -
  consider "key = ''ArrowUp''" | "key = ''w''" | "key = ''ArrowDown''" | "key = ''s''"
    | "key = ''ArrowLeft''" | "key = ''a''" | "key = ''ArrowRight''" | "key = ''d''"
    using assms(1) unfolding keyDirection_def by (meson option.distinct(1))
  then show ?thesis
  proof cases
    case 1 then show ?thesis using assms by (auto simp: keyDirection_def handleKeyPress_def)
  next
    case 2 then show ?thesis using assms by (auto simp: keyDirection_def handleKeyPress_def)
  next
    case 3 then show ?thesis using assms by (auto simp: keyDirection_def handleKeyPress_def)
  next
    case 4 then show ?thesis using assms by (auto simp: keyDirection_def handleKeyPress_def)
  next
    case 5 then show ?thesis using assms by (auto simp: keyDirection_def handleKeyPress_def)
  next
    case 6 then show ?thesis using assms by (auto simp: keyDirection_def handleKeyPress_def)
  next
    case 7 then show ?thesis using assms by (auto simp: keyDirection_def handleKeyPress_def)
  next
    case 8 then show ?thesis using assms by (auto simp: keyDirection_def handleKeyPress_def)
  qed
qed

theorem reverse_key_ignored_witness:
  "handleKeyPress ''ArrowLeft'' ((initial 0)\<lparr>direction := \<lparr>x = 1, y = 0\<rparr>\<rparr>)
   = (initial 0)\<lparr>direction := \<lparr>x = 1, y = 0\<rparr>\<rparr>"
  using reverse_key_ignored [of "''ArrowLeft''" "\<lparr>x = -1, y = 0\<rparr>"
                               "(initial 0)\<lparr>direction := \<lparr>x = 1, y = 0\<rparr>\<rparr>"]
  by (simp add: keyDirection_def)

subsection \<open>Spawning\<close>

text \<open>
  What a spawner has done when it returns. The induction is over the rounds of the loop: a
  result of the loop is a result of its body, with the next round as a call that returns.
\<close>

lemma spawnFood_result:
  assumes "spawnFood N rnd s = Some s'"
  shows "\<exists>d f. s' = s\<lparr>draws := d, food := f\<rparr> \<and> f \<notin> set (snake s) \<and> f \<notin> set (obstacles s)"
proof (induction rule: spawnFood.raw_induct [OF _ assms])
  case (1 spawnFood' N rnd s s')
  let ?c = "\<lparr>x = \<lfloor>rnd (draws s) * of_int N\<rfloor>, y = \<lfloor>rnd (draws s + 1) * of_int N\<rfloor>\<rparr>"
  show ?case
  proof (cases "\<not> occupies (snake s) ?c \<and> \<not> occupies (obstacles s) ?c")
    case True
    then have "s' = s\<lparr>draws := draws s + 2, food := ?c\<rparr>"
      using 1(2) by (simp add: Let_def)
    then show ?thesis using True by (auto simp: occupies_iff)
  next
    case False
    then have "spawnFood' N rnd (s\<lparr>draws := draws s + 2\<rparr>) = Some s'"
      using 1(2) by (auto simp: Let_def)
    from 1(1) [OF this] show ?thesis by auto
  qed
qed

lemma spawnObstacle_result:
  assumes "spawnObstacle N rnd s = Some s'"
  shows "\<exists>d c. s' = s\<lparr>draws := d, obstacles := obstacles s @ [c]\<rparr>
               \<and> c \<notin> set (snake s) \<and> c \<noteq> food s \<and> c \<notin> set (obstacles s)"
proof (induction rule: spawnObstacle.raw_induct [OF _ assms])
  case (1 spawnObstacle' N rnd s s')
  let ?c = "\<lparr>x = \<lfloor>rnd (draws s) * of_int N\<rfloor>, y = \<lfloor>rnd (draws s + 1) * of_int N\<rfloor>\<rparr>"
  show ?case
  proof (cases "\<not> occupies (snake s) ?c \<and> \<not> (x (food s) = x ?c \<and> y (food s) = y ?c)
                \<and> \<not> occupies (obstacles s) ?c")
    case True
    then have "s' = s\<lparr>draws := draws s + 2, obstacles := obstacles s @ [?c]\<rparr>"
      using 1(2) by (simp add: Let_def)
    moreover have "?c \<noteq> food s" using True by (metis point.select_convs(1,2))
    ultimately show ?thesis using True by (auto simp: occupies_iff)
  next
    case False
    then have "spawnObstacle' N rnd (s\<lparr>draws := draws s + 2\<rparr>) = Some s'"
      using 1(2) by (auto simp: Let_def)
    from 1(1) [OF this] show ?thesis by auto
  qed
qed

text \<open>
  When a spawner returns. Its rounds look at the cells \<open>drawnCell\<close> of the random values two
  by two; it returns at the first one that is free, and never if there is none (on a full
  grid, for one).
\<close>

lemma spawnFood_unfold:
  "spawnFood N rnd s =
     (if drawnCell N rnd (draws s) \<notin> set (snake s) \<and> drawnCell N rnd (draws s) \<notin> set (obstacles s)
      then Some (s\<lparr>draws := draws s + 2, food := drawnCell N rnd (draws s)\<rparr>)
      else spawnFood N rnd (s\<lparr>draws := draws s + 2\<rparr>))"
  by (subst spawnFood.simps) (simp add: Let_def drawnCell_def occupies_iff)

lemma spawnFood_returns:
  "drawnCell N rnd (draws s + 2 * k) \<notin> set (snake s)
   \<Longrightarrow> drawnCell N rnd (draws s + 2 * k) \<notin> set (obstacles s)
   \<Longrightarrow> \<exists>s'. spawnFood N rnd s = Some s'"
proof (induction k arbitrary: s)
  case 0
  then show ?case by (subst spawnFood_unfold) simp
next
  case (Suc k)
  show ?case
  proof (cases "drawnCell N rnd (draws s) \<notin> set (snake s)
                \<and> drawnCell N rnd (draws s) \<notin> set (obstacles s)")
    case True
    then show ?thesis by (subst spawnFood_unfold) simp
  next
    case False
    have "\<exists>s'. spawnFood N rnd (s\<lparr>draws := draws s + 2\<rparr>) = Some s'"
      using Suc.prems by (intro Suc.IH) (simp_all add: algebra_simps)
    then show ?thesis using False by (subst spawnFood_unfold) auto
  qed
qed

lemma spawnFood_returned:
  assumes "spawnFood N rnd s = Some s'"
  shows "\<exists>k. food s' = drawnCell N rnd (draws s + 2 * k)
             \<and> drawnCell N rnd (draws s + 2 * k) \<notin> set (snake s)
             \<and> drawnCell N rnd (draws s + 2 * k) \<notin> set (obstacles s)"
proof (induction rule: spawnFood.raw_induct [OF _ assms])
  case (1 spawnFood' N rnd s s')
  let ?c = "drawnCell N rnd (draws s)"
  show ?case
  proof (cases "?c \<notin> set (snake s) \<and> ?c \<notin> set (obstacles s)")
    case True
    then have "s' = s\<lparr>draws := draws s + 2, food := ?c\<rparr>"
      using 1(2) by (simp add: Let_def drawnCell_def occupies_iff)
    then have "food s' = drawnCell N rnd (draws s + 2 * 0)" by simp
    then show ?thesis using True by (metis add.right_neutral mult_0_right)
  next
    case False
    then have "spawnFood' N rnd (s\<lparr>draws := draws s + 2\<rparr>) = Some s'"
      using 1(2) by (auto simp: Let_def drawnCell_def occupies_iff)
    from 1(1) [OF this] obtain k where
      "food s' = drawnCell N rnd (draws s + 2 + 2 * k)"
      "drawnCell N rnd (draws s + 2 + 2 * k) \<notin> set (snake s)"
      "drawnCell N rnd (draws s + 2 + 2 * k) \<notin> set (obstacles s)" by auto
    then have "food s' = drawnCell N rnd (draws s + 2 * Suc k)
      \<and> drawnCell N rnd (draws s + 2 * Suc k) \<notin> set (snake s)
      \<and> drawnCell N rnd (draws s + 2 * Suc k) \<notin> set (obstacles s)"
      by (simp add: algebra_simps)
    then show ?thesis by blast
  qed
qed

lemma spawnFood_returns_iff:
  "(\<exists>s'. spawnFood N rnd s = Some s')
   = (\<exists>k. drawnCell N rnd (draws s + 2 * k) \<notin> set (snake s)
          \<and> drawnCell N rnd (draws s + 2 * k) \<notin> set (obstacles s))"
  using spawnFood_returns spawnFood_returned by blast

lemma spawnObstacle_unfold:
  "spawnObstacle N rnd s =
     (if drawnCell N rnd (draws s) \<notin> set (snake s) \<and> food s \<noteq> drawnCell N rnd (draws s)
         \<and> drawnCell N rnd (draws s) \<notin> set (obstacles s)
      then Some (s\<lparr>draws := draws s + 2,
                   obstacles := obstacles s @ [drawnCell N rnd (draws s)]\<rparr>)
      else spawnObstacle N rnd (s\<lparr>draws := draws s + 2\<rparr>))"
proof -
  have c: "\<lparr>x = \<lfloor>rnd (draws s) * of_int N\<rfloor>, y = \<lfloor>rnd (draws s + 1) * of_int N\<rfloor>\<rparr>
           = drawnCell N rnd (draws s)"
    by (simp add: drawnCell_def)
  show ?thesis
    by (subst spawnObstacle.simps) (simp only: Let_def c point_eq_iff occupies_iff)
qed

lemma spawnObstacle_returns:
  "drawnCell N rnd (draws s + 2 * k) \<notin> set (snake s)
   \<Longrightarrow> food s \<noteq> drawnCell N rnd (draws s + 2 * k)
   \<Longrightarrow> drawnCell N rnd (draws s + 2 * k) \<notin> set (obstacles s)
   \<Longrightarrow> \<exists>s'. spawnObstacle N rnd s = Some s'"
proof (induction k arbitrary: s)
  case 0
  then show ?case by (subst spawnObstacle_unfold) simp
next
  case (Suc k)
  show ?case
  proof (cases "drawnCell N rnd (draws s) \<notin> set (snake s) \<and> food s \<noteq> drawnCell N rnd (draws s)
                \<and> drawnCell N rnd (draws s) \<notin> set (obstacles s)")
    case True
    then show ?thesis by (subst spawnObstacle_unfold) simp
  next
    case False
    have "\<exists>s'. spawnObstacle N rnd (s\<lparr>draws := draws s + 2\<rparr>) = Some s'"
      using Suc.prems by (intro Suc.IH) (simp_all add: algebra_simps)
    then show ?thesis using False by (subst spawnObstacle_unfold) auto
  qed
qed

lemma spawnObstacle_drawn:
  assumes "spawnObstacle N rnd s = Some s'"
  shows "\<exists>d. obstacles s' = obstacles s @ [drawnCell N rnd d]"
proof (induction rule: spawnObstacle.raw_induct [OF _ assms])
  case (1 spawnObstacle' N rnd s s')
  let ?c = "drawnCell N rnd (draws s)"
  have c: "\<lparr>x = \<lfloor>rnd (draws s) * of_int N\<rfloor>, y = \<lfloor>rnd (draws s + 1) * of_int N\<rfloor>\<rparr> = ?c"
    by (simp add: drawnCell_def)
  have body: "(if ?c \<notin> set (snake s) \<and> food s \<noteq> ?c \<and> ?c \<notin> set (obstacles s)
               then Some (s\<lparr>draws := draws s + 2, obstacles := obstacles s @ [?c]\<rparr>)
               else spawnObstacle' N rnd (s\<lparr>draws := draws s + 2\<rparr>)) = Some s'"
    using 1(2) by (simp only: Let_def c point_eq_iff occupies_iff)
  show ?case
  proof (cases "?c \<notin> set (snake s) \<and> food s \<noteq> ?c \<and> ?c \<notin> set (obstacles s)")
    case True
    then have "s' = s\<lparr>draws := draws s + 2, obstacles := obstacles s @ [?c]\<rparr>"
      using body by simp
    then have "obstacles s' = obstacles s @ [?c]" by simp
    then show ?thesis by blast
  next
    case False
    then have "spawnObstacle' N rnd (s\<lparr>draws := draws s + 2\<rparr>) = Some s'"
      using body by (simp split: if_splits)
    from 1(1) [OF this] show ?thesis by simp
  qed
qed

text \<open>With random values in \<open>[0, 1)\<close> and a positive grid size, a drawn cell is on the grid.\<close>

lemma drawnCell_inGrid:
  assumes "\<forall>n. 0 \<le> rnd n \<and> rnd n < 1" and "0 < N"
  shows "inGrid N (drawnCell N rnd d)"
proof -
  have "0 \<le> \<lfloor>r * of_int N\<rfloor> \<and> \<lfloor>r * of_int N\<rfloor> < N" if "0 \<le> r" "r < 1" for r :: real
  proof -
    have "0 \<le> r * of_int N" using that assms(2) by simp
    moreover have "r * of_int N < of_int N" using that assms(2) by simp
    ultimately show ?thesis by (simp add: floor_less_iff)
  qed
  then show ?thesis using assms(1) by (simp add: inGrid_def drawnCell_def)
qed

subsection \<open>Eating\<close>

lemma eatFood_nonempty:
  assumes "snake s \<noteq> []"
  shows "eatFood N rnd s =
     (case (if score s + 10 \<ge> 50 \<and> (score s + 10) mod 50 = 0
            then spawnObstacle N rnd (scored s) else Some (scored s)) of
        None \<Rightarrow> None
      | Some s4 \<Rightarrow> (case spawnFood N rnd (sped s4) of None \<Rightarrow> None | Some s6 \<Rightarrow> Some (Inr s6)))"
proof -
  obtain h t where ht: "snake s = h # t" using assms by (cases "snake s") auto
  show ?thesis
    unfolding eatFood_def scored_def sped_def
    using ht by (auto simp: Let_def split: option.splits)
qed

lemma eatFood_result:
  assumes "eatFood N rnd s = Some (Inr s')"
  shows "snake s \<noteq> []
    \<and> snake s' = snake s @ [last (snake s)]
    \<and> score s' = score s + 10
    \<and> direction s' = direction s
    \<and> isPaused s' = isPaused s
    \<and> gameSpeed s' = (if gameSpeed s > minSpeed then max minSpeed (gameSpeed s - speedIncrement)
                       else gameSpeed s)
    \<and> length (obstacles s') = length (obstacles s)
         + (if score s + 10 \<ge> 50 \<and> (score s + 10) mod 50 = 0 then 1 else 0)
    \<and> food s' \<notin> set (snake s') \<and> food s' \<notin> set (obstacles s')"
proof -
  have ne: "snake s \<noteq> []"
    using assms by (auto simp: eatFood_def Let_def split: list.splits if_splits)
  let ?b = "score s + 10 \<ge> 50 \<and> (score s + 10) mod 50 = 0"
  from assms obtain s4 where
    s4: "(if ?b then spawnObstacle N rnd (scored s) else Some (scored s)) = Some s4"
    and s6: "spawnFood N rnd (sped s4) = Some s'"
    unfolding eatFood_nonempty [OF ne] by (auto split: option.splits)
  have "\<exists>d obs. s4 = (scored s)\<lparr>draws := d, obstacles := obs\<rparr>
       \<and> length obs = length (obstacles s) + (if ?b then 1 else 0)"
  proof (cases ?b)
    case True
    then have "spawnObstacle N rnd (scored s) = Some s4" using s4 by simp
    from spawnObstacle_result [OF this] obtain d c where
      "s4 = (scored s)\<lparr>draws := d, obstacles := obstacles (scored s) @ [c]\<rparr>" by blast
    moreover have "length (obstacles (scored s) @ [c]) = length (obstacles s) + (if ?b then 1 else 0)"
      using True by (simp add: scored_def)
    ultimately show ?thesis by blast
  next
    case False
    then have "s4 = scored s" using s4 by (auto split: if_splits)
    then have "s4 = (scored s)\<lparr>draws := draws (scored s), obstacles := obstacles s\<rparr>"
      by (simp add: scored_def)
    moreover have "length (obstacles s) = length (obstacles s) + (if ?b then 1 else 0)"
      using False by simp
    ultimately show ?thesis by blast
  qed
  then obtain d obs where s4_eq: "s4 = (scored s)\<lparr>draws := d, obstacles := obs\<rparr>"
    and len: "length obs = length (obstacles s) + (if ?b then 1 else 0)"
    by blast
  from spawnFood_result [OF s6] obtain d' f where
    s': "s' = (sped s4)\<lparr>draws := d', food := f\<rparr>"
    and f: "f \<notin> set (snake (sped s4))" "f \<notin> set (obstacles (sped s4))"
    by blast
  have s5: "snake (sped s4) = snake s @ [last (snake s)]" "score (sped s4) = score s + 10"
    "direction (sped s4) = direction s" "isPaused (sped s4) = isPaused s"
    "obstacles (sped s4) = obs"
    "gameSpeed (sped s4) = (if gameSpeed s > minSpeed
          then max minSpeed (gameSpeed s - speedIncrement) else gameSpeed s)"
    by (simp_all add: sped_def s4_eq scored_def)
  show ?thesis
    using ne s' f s5 len by simp
qed

subsection \<open>Moving obstacles\<close>

lemma wrap_same: "0 \<le> v \<Longrightarrow> v < N \<Longrightarrow> wrap N v = v"
  by (simp add: wrap_def)

lemma wrap_succ: "0 \<le> v \<Longrightarrow> v < N \<Longrightarrow> wrap N (v + 1) = (v + 1) mod N"
  using wrap_mod [of v N 1] by simp

lemma wrap_pred: "0 \<le> v \<Longrightarrow> v < N \<Longrightarrow> wrap N (v - 1) = (v - 1) mod N"
  using wrap_mod [of v N "-1"] by simp

lemma moveCandidate_cases:
  assumes "inGrid N p"
  shows "moveCandidate N r p = p \<or> wrapNeighbour N p (moveCandidate N r p)"
proof -
  have g: "0 \<le> x p" "x p < N" "0 \<le> y p" "y p < N"
    using assms by (simp_all add: inGrid_def)
  consider "\<lfloor>r * 4\<rfloor> = 0" | "\<lfloor>r * 4\<rfloor> = 1" | "\<lfloor>r * 4\<rfloor> = 2" | "\<lfloor>r * 4\<rfloor> = 3"
    | "\<lfloor>r * 4\<rfloor> \<noteq> 0 \<and> \<lfloor>r * 4\<rfloor> \<noteq> 1 \<and> \<lfloor>r * 4\<rfloor> \<noteq> 2 \<and> \<lfloor>r * 4\<rfloor> \<noteq> 3"
    by blast
  then show ?thesis
  proof cases
    case 1
    then have "moveCandidate N r p = \<lparr>x = x p, y = (y p - 1) mod N\<rparr>"
      using g by (simp add: moveCandidate_def wrap_same wrap_pred)
    then show ?thesis by (simp add: wrapNeighbour_def)
  next
    case 2
    then have "moveCandidate N r p = \<lparr>x = (x p + 1) mod N, y = y p\<rparr>"
      using g by (simp add: moveCandidate_def wrap_same wrap_succ)
    then show ?thesis by (simp add: wrapNeighbour_def)
  next
    case 3
    then have "moveCandidate N r p = \<lparr>x = x p, y = (y p + 1) mod N\<rparr>"
      using g by (simp add: moveCandidate_def wrap_same wrap_succ)
    then show ?thesis by (simp add: wrapNeighbour_def)
  next
    case 4
    then have "moveCandidate N r p = \<lparr>x = (x p - 1) mod N, y = y p\<rparr>"
      using g by (simp add: moveCandidate_def wrap_same wrap_pred)
    then show ?thesis by (simp add: wrapNeighbour_def)
  next
    case 5
    then have "moveCandidate N r p = p"
      using g by (simp add: moveCandidate_def wrap_same)
    then show ?thesis by simp
  qed
qed

lemma wrapNeighbour_inGrid: "inGrid N p \<Longrightarrow> wrapNeighbour N p q \<Longrightarrow> inGrid N q"
  by (auto simp: inGrid_def wrapNeighbour_def)

lemma validMove_iff:
  "validMove s i p =
     (p \<notin> set (snake s) \<and> p \<noteq> food s
      \<and> (\<forall>j<length (obstacles s). j \<noteq> i \<longrightarrow> obstacles s ! j \<noteq> p))"
proof -
  have "(x (food s) = x p \<and> y (food s) = y p) = (p = food s)"
    by (auto simp: point_eq_iff)
  then show ?thesis
    by (auto simp: validMove_def occupies_iff otherObstacle_def list_ex_iff point_eq_iff)
qed

lemma moveAttempts_Some:
  "moveAttempts N rnd s i a d = (Some p, d') \<Longrightarrow>
   \<exists>r. p = moveCandidate N r (obstacles s ! i) \<and> validMove s i p"
proof (induction N rnd s i a d rule: moveAttempts.induct)
  case (1 N rnd s i a d)
  show ?case
  proof (cases "a < maxAttempts")
    case False
    then show ?thesis using "1.prems" by (subst (asm) moveAttempts.simps) simp
  next
    case True
    let ?c = "moveCandidate N (rnd d) (obstacles s ! i)"
    show ?thesis
    proof (cases "validMove s i ?c")
      case v: True
      then have "p = ?c"
        using "1.prems" True by (subst (asm) moveAttempts.simps) (simp add: Let_def)
      then show ?thesis using v by blast
    next
      case v: False
      then have "moveAttempts N rnd s i (a + 1) (d + 1) = (Some p, d')"
        using "1.prems" True by (subst (asm) moveAttempts.simps) (simp add: Let_def)
      from "1.IH" [OF True refl refl v this] show ?thesis .
    qed
  qed
qed

lemma moveAttempts_None:
  "(\<forall>k. a + k < maxAttempts \<longrightarrow> \<not> validMove s i (moveCandidate N (rnd (d + k)) (obstacles s ! i)))
   \<Longrightarrow> moveAttempts N rnd s i a d = (None, d + (maxAttempts - a))"
proof (induction N rnd s i a d rule: moveAttempts.induct)
  case (1 N rnd s i a d)
  show ?case
  proof (cases "a < maxAttempts")
    case False
    then show ?thesis by (subst moveAttempts.simps) simp
  next
    case True
    let ?c = "moveCandidate N (rnd d) (obstacles s ! i)"
    have v: "\<not> validMove s i ?c" using "1.prems" [rule_format, of 0] True by simp
    have "\<forall>k. a + 1 + k < maxAttempts \<longrightarrow>
            \<not> validMove s i (moveCandidate N (rnd (d + 1 + k)) (obstacles s ! i))"
      using "1.prems" by (metis add.assoc add.commute)
    from "1.IH" [OF True refl refl v this]
    have "moveAttempts N rnd s i (a + 1) (d + 1) = (None, d + 1 + (maxAttempts - (a + 1)))" .
    then show ?thesis using True v by (subst moveAttempts.simps) (simp add: Let_def)
  qed
qed

lemma moveObstacle_step:
  assumes "i < length (obstacles s)"
  shows "\<exists>obs' d'. moveObstacle N rnd i s = s\<lparr>obstacles := obs', draws := d'\<rparr>
           \<and> (obs' = obstacles s
              \<or> (\<exists>r. obs' = (obstacles s)[i := moveCandidate N r (obstacles s ! i)]
                     \<and> validMove s i (moveCandidate N r (obstacles s ! i))))"
proof (cases "rnd (draws s) < 0.2")
  case False
  then have "moveObstacle N rnd i s = s\<lparr>obstacles := obstacles s, draws := draws s + 1\<rparr>"
    using assms by (simp add: moveObstacle_def)
  then show ?thesis by blast
next
  case True
  obtain res d where m: "moveAttempts N rnd s i 0 (draws s + 1) = (res, d)"
    by (cases "moveAttempts N rnd s i 0 (draws s + 1)") auto
  show ?thesis
  proof (cases res)
    case None
    then have "moveObstacle N rnd i s = s\<lparr>obstacles := obstacles s, draws := d\<rparr>"
      using assms True m by (simp add: moveObstacle_def)
    then show ?thesis by blast
  next
    case (Some p)
    then have e: "moveObstacle N rnd i s = s\<lparr>obstacles := (obstacles s)[i := p], draws := d\<rparr>"
      using assms True m by (simp add: moveObstacle_def)
    from moveAttempts_Some [of N rnd s i 0 "draws s + 1" p d] m Some
    obtain r where "p = moveCandidate N r (obstacles s ! i)" "validMove s i p" by blast
    with e show ?thesis by blast
  qed
qed

lemma moveObstacle_noCandidate:
  assumes "i < length (obstacles s)" and "noValidCandidate N rnd s i"
  shows "obstacles (moveObstacle N rnd i s) = obstacles s"
proof (cases "rnd (draws s) < 0.2")
  case False
  then show ?thesis using assms by (simp add: moveObstacle_def)
next
  case True
  have "\<forall>k. 0 + k < maxAttempts \<longrightarrow>
          \<not> validMove s i (moveCandidate N (rnd (draws s + 1 + k)) (obstacles s ! i))"
    using assms(2) by (simp add: noValidCandidate_def list_all_iff)
  from moveAttempts_None [OF this]
  have "moveAttempts N rnd s i 0 (draws s + 1) = (None, draws s + 1 + (maxAttempts - 0))" .
  then show ?thesis using assms True by (simp add: moveObstacle_def)
qed

lemma fold_upt_Suc: "fold f [0..<Suc k] s = f k (fold f [0..<k] s)"
  by simp

lemma moveObstacles_prefix:
  assumes grid: "\<forall>p \<in> set (obstacles s). inGrid N p"
  shows "k \<le> length (obstacles s) \<Longrightarrow>
    (\<exists>d. fold (moveObstacle N rnd) [0..<k] s
            = s\<lparr>obstacles := obstacles (fold (moveObstacle N rnd) [0..<k] s), draws := d\<rparr>)
    \<and> length (obstacles (fold (moveObstacle N rnd) [0..<k] s)) = length (obstacles s)
    \<and> (\<forall>i<length (obstacles s). k \<le> i \<longrightarrow>
          obstacles (fold (moveObstacle N rnd) [0..<k] s) ! i = obstacles s ! i)
    \<and> (\<forall>i<k. movedOrSame N s (obstacles (fold (moveObstacle N rnd) [0..<k] s)) i)
    \<and> (\<forall>i<k. noValidCandidate N rnd (fold (moveObstacle N rnd) [0..<i] s) i \<longrightarrow>
          obstacles (fold (moveObstacle N rnd) [0..<k] s) ! i = obstacles s ! i)"
proof (induction k)
  case 0
  show ?case by (simp, rule exI [of _ "draws s"], simp)
next
  case (Suc k)
  define t where "t = fold (moveObstacle N rnd) [0..<k] s"
  define n where "n = length (obstacles s)"
  have k: "k < n" using Suc.prems by (simp add: n_def)
  from Suc.IH k obtain d where
    frame: "t = s\<lparr>obstacles := obstacles t, draws := d\<rparr>"
    and len: "length (obstacles t) = n"
    and rest: "\<forall>i<n. k \<le> i \<longrightarrow> obstacles t ! i = obstacles s ! i"
    and moved: "\<forall>i<k. movedOrSame N s (obstacles t) i"
    and stuck: "\<forall>i<k. noValidCandidate N rnd (fold (moveObstacle N rnd) [0..<i] s) i \<longrightarrow>
                  obstacles t ! i = obstacles s ! i"
    unfolding t_def n_def by auto
  have snake_t: "snake t = snake s" and food_t: "food t = food s"
    by (subst frame, simp)+
  have at_k: "obstacles t ! k = obstacles s ! k" using rest k by simp
  have grid_k: "inGrid N (obstacles s ! k)" using grid k by (simp add: n_def)
  define t' where "t' = moveObstacle N rnd k t"
  have t'_fold: "fold (moveObstacle N rnd) [0..<Suc k] s = t'"
    by (simp add: t'_def t_def)
  from moveObstacle_step [of k t N rnd] k len obtain obs' d' where
    t': "t' = t\<lparr>obstacles := obs', draws := d'\<rparr>"
    and alt: "obs' = obstacles t
              \<or> (\<exists>r. obs' = (obstacles t)[k := moveCandidate N r (obstacles t ! k)]
                     \<and> validMove t k (moveCandidate N r (obstacles t ! k)))"
    unfolding t'_def by auto
  have obs_t': "obstacles t' = obs'" by (simp add: t')
  have len': "length obs' = n" using alt len by auto
  have other: "\<forall>i<n. i \<noteq> k \<longrightarrow> obs' ! i = obstacles t ! i" using alt by auto
  have c1: "\<exists>d. t' = s\<lparr>obstacles := obstacles t', draws := d\<rparr>"
  proof -
    have "t' = s\<lparr>obstacles := obs', draws := d'\<rparr>"
      by (subst t', subst frame, simp)
    then show ?thesis using obs_t' by auto
  qed
  have c3: "\<forall>i<n. Suc k \<le> i \<longrightarrow> obs' ! i = obstacles s ! i"
    using other rest by auto
  have new_k: "movedOrSame N s obs' k"
  proof -
    from alt show ?thesis
    proof
      assume "obs' = obstacles t"
      then show ?thesis using at_k by (simp add: movedOrSame_def)
    next
      assume "\<exists>r. obs' = (obstacles t)[k := moveCandidate N r (obstacles t ! k)]
                     \<and> validMove t k (moveCandidate N r (obstacles t ! k))"
      then obtain r where o: "obs' = (obstacles t)[k := moveCandidate N r (obstacles s ! k)]"
        and v: "validMove t k (moveCandidate N r (obstacles s ! k))"
        using at_k by auto
      let ?c = "moveCandidate N r (obstacles s ! k)"
      have ck: "obs' ! k = ?c" using o k len by simp
      from v have v1: "?c \<notin> set (snake s)" and v2: "?c \<noteq> food s"
        and v3: "\<forall>j<n. j \<noteq> k \<longrightarrow> obstacles t ! j \<noteq> ?c"
        by (simp_all add: validMove_iff snake_t food_t len)
      have v3': "\<forall>j<length obs'. j \<noteq> k \<longrightarrow> obs' ! j \<noteq> obs' ! k"
        using v3 other len' ck by auto
      from moveCandidate_cases [OF grid_k, of r]
      show ?thesis
        using ck v1 v2 v3' by (auto simp: movedOrSame_def)
    qed
  qed
  have old: "movedOrSame N s obs' i" if i: "i < k" for i
  proof -
    have same_i: "obs' ! i = obstacles t ! i" using other i k by simp
    from moved i have m: "movedOrSame N s (obstacles t) i" by simp
    show ?thesis
    proof (cases "obstacles t ! i = obstacles s ! i")
      case True
      then show ?thesis using same_i by (simp add: movedOrSame_def)
    next
      case False
      with m have w: "wrapNeighbour N (obstacles s ! i) (obstacles t ! i)"
        and a: "obstacles t ! i \<notin> set (snake s)" and b: "obstacles t ! i \<noteq> food s"
        and c: "\<forall>j<n. j \<noteq> i \<longrightarrow> obstacles t ! j \<noteq> obstacles t ! i"
        by (auto simp: movedOrSame_def len)
      have "obs' ! j \<noteq> obs' ! i" if j: "j < n" "j \<noteq> i" for j
      proof (cases "j = k")
        case False
        then show ?thesis using c j other same_i by simp
      next
        case True
        from alt show ?thesis
        proof
          assume "obs' = obstacles t"
          then show ?thesis using c j by simp
        next
          assume "\<exists>r. obs' = (obstacles t)[k := moveCandidate N r (obstacles t ! k)]
                     \<and> validMove t k (moveCandidate N r (obstacles t ! k))"
          then obtain r where o: "obs' = (obstacles t)[k := moveCandidate N r (obstacles t ! k)]"
            and v: "validMove t k (moveCandidate N r (obstacles t ! k))" by blast
          have "obstacles t ! i \<noteq> moveCandidate N r (obstacles t ! k)"
            using v i k by (simp add: validMove_iff len)
          moreover have "obs' ! k = moveCandidate N r (obstacles t ! k)"
            using o k len by simp
          ultimately show ?thesis using True same_i by simp
        qed
      qed
      then show ?thesis using w a b same_i by (simp add: movedOrSame_def len')
    qed
  qed
  have c4: "\<forall>i<Suc k. movedOrSame N s obs' i"
    using old new_k by (auto simp: less_Suc_eq)
  have c5: "obs' ! i = obstacles s ! i"
    if "i < Suc k" "noValidCandidate N rnd (fold (moveObstacle N rnd) [0..<i] s) i" for i
  proof (cases "i = k")
    case True
    then have "noValidCandidate N rnd t k" using that by (simp add: t_def)
    from moveObstacle_noCandidate [OF _ this] k len
    have "obstacles t' = obstacles t" by (simp add: t'_def)
    then show ?thesis using True at_k obs_t' by simp
  next
    case False
    then have "i < k" using that by simp
    then show ?thesis using stuck that other k by simp
  qed
  show ?case
    unfolding t'_fold using c1 len' c3 c4 c5 obs_t' by (simp add: n_def)
qed

subsection \<open>Restart\<close>

text \<open>What \<^verbatim>\<open>resetGame\<close> leaves when it returns: the initial values, a running interval.\<close>

lemma resetGame_result:
  assumes "resetGame N rnd s = Some s'"
  shows "snake s' = [\<lparr>x = 10, y = 10\<rparr>] \<and> direction s' = \<lparr>x = 0, y = 0\<rparr> \<and> score s' = 0
    \<and> obstacles s' = [] \<and> gameSpeed s' = 150 \<and> gameLoop s' = Some 150 \<and> \<not> isPaused s'
    \<and> food s' \<noteq> \<lparr>x = 10, y = 10\<rparr>"
proof -
  let ?s1 = "s\<lparr>snake := [\<lparr>x = 10, y = 10\<rparr>], direction := \<lparr>x = 0, y = 0\<rparr>, score := 0,
                 obstacles := [], gameSpeed := 150\<rparr>"
  from assms obtain s2 where f: "spawnFood N rnd ?s1 = Some s2"
    and s': "s' = s2\<lparr>gameLoop := Some (gameSpeed s2), isPaused := False\<rparr>"
    by (auto simp: resetGame_def split: option.splits)
  from spawnFood_result [OF f] obtain d c where "s2 = ?s1\<lparr>draws := d, food := c\<rparr>"
    and "c \<notin> set (snake ?s1)" by blast
  then show ?thesis using s' by auto
qed

subsection \<open>The tick\<close>

lemma moveSnake_result:
  assumes "moveSnake N s = Inr s1"
  shows "\<exists>h. snake s \<noteq> [] \<and> s1 = s\<lparr>snake := h # butlast (snake s)\<rparr>"
proof (cases "snake s")
  case Nil
  then show ?thesis using assms by (simp add: moveSnake_def)
next
  case (Cons a rest)
  then show ?thesis using assms by (auto simp: moveSnake_def Let_def)
qed

lemma checkFoodCollision_nonempty:
  "snake s = head # body \<Longrightarrow> checkFoodCollision s = Inr (head = food s)"
  by (simp add: checkFoodCollision_def point_eq_iff)

lemma update_cases:
  assumes "update N rnd s = Some (Inr s')"
  shows "(isPaused s \<and> s' = s)
    \<or> (\<exists>s1. \<not> isPaused s \<and> moveSnake N s = Inr s1
         \<and> ((checkCollision s1 = Inr True \<and> s' = endGame s1)
            \<or> (checkCollision s1 = Inr False \<and> checkFoodCollision s1 = Inr False
                \<and> s' = obstaclePhase N rnd s1)
            \<or> (checkCollision s1 = Inr False \<and> checkFoodCollision s1 = Inr True
                \<and> (\<exists>s2. eatFood N rnd s1 = Some (Inr s2) \<and> s' = obstaclePhase N rnd s2))))"
  using assms unfolding update_def
  by (auto split: if_splits sum.splits bool.splits option.splits)

lemma moveObstacle_frame:
  "\<exists>obs d. moveObstacle N rnd i s = s\<lparr>obstacles := obs, draws := d\<rparr>
           \<and> length obs = length (obstacles s)"
proof (cases "i < length (obstacles s)")
  case True
  from moveObstacle_step [OF this, of N rnd] show ?thesis by auto
next
  case False
  then have "moveObstacle N rnd i s = s\<lparr>obstacles := obstacles s, draws := draws s\<rparr>"
    by (simp add: moveObstacle_def)
  then show ?thesis by blast
qed

lemma fold_moveObstacle_frame:
  "\<exists>obs d. fold (moveObstacle N rnd) js s = s\<lparr>obstacles := obs, draws := d\<rparr>
           \<and> length obs = length (obstacles s)"
proof (induction js arbitrary: s)
  case Nil
  have "s = s\<lparr>obstacles := obstacles s, draws := draws s\<rparr>" by simp
  then show ?case by (metis fold_simps(1))
next
  case (Cons j js)
  obtain obs d where m: "moveObstacle N rnd j s = s\<lparr>obstacles := obs, draws := d\<rparr>"
    and l: "length obs = length (obstacles s)"
    using moveObstacle_frame by blast
  from Cons.IH [of "s\<lparr>obstacles := obs, draws := d\<rparr>"] obtain obs' d' where
    "fold (moveObstacle N rnd) js (s\<lparr>obstacles := obs, draws := d\<rparr>)
       = s\<lparr>obstacles := obs', draws := d'\<rparr>" and "length obs' = length obs"
    by auto
  then show ?case using m l by auto
qed

lemma obstaclePhase_frame:
  "\<exists>obs d. obstaclePhase N rnd s = s\<lparr>obstacles := obs, draws := d\<rparr>
           \<and> length obs = length (obstacles s)"
proof (cases "score s \<ge> 200")
  case True
  then show ?thesis
    using fold_moveObstacle_frame [of N rnd "[0..<length (obstacles s)]" s]
    by (simp add: obstaclePhase_def moveObstacles_def)
next
  case False
  then have "obstaclePhase N rnd s = s\<lparr>obstacles := obstacles s, draws := draws s\<rparr>"
    by (simp add: obstaclePhase_def)
  then show ?thesis by blast
qed

lemma obstaclePhase_fields:
  "snake (obstaclePhase N rnd s) = snake s"
  "direction (obstaclePhase N rnd s) = direction s"
  "score (obstaclePhase N rnd s) = score s"
  "gameSpeed (obstaclePhase N rnd s) = gameSpeed s"
  "length (obstacles (obstaclePhase N rnd s)) = length (obstacles s)"
proof -
  obtain obs d where "obstaclePhase N rnd s = s\<lparr>obstacles := obs, draws := d\<rparr>"
    and "length obs = length (obstacles s)"
    using obstaclePhase_frame by blast
  then show "snake (obstaclePhase N rnd s) = snake s"
    "direction (obstaclePhase N rnd s) = direction s"
    "score (obstaclePhase N rnd s) = score s"
    "gameSpeed (obstaclePhase N rnd s) = gameSpeed s"
    "length (obstacles (obstaclePhase N rnd s)) = length (obstacles s)"
    by simp_all
qed

lemma eats_tick:
  assumes "eats N s" and "update N rnd s = Some (Inr s')"
  shows "\<exists>h s2. snake s \<noteq> []
      \<and> eatFood N rnd (s\<lparr>snake := h # butlast (snake s)\<rparr>) = Some (Inr s2)
      \<and> h \<notin> set (butlast (snake s))
      \<and> s' = obstaclePhase N rnd s2"
proof -
  from assms(1) obtain s1 where m: "moveSnake N s = Inr s1" and np: "\<not> isPaused s"
    and c: "checkCollision s1 = Inr False" and f: "checkFoodCollision s1 = Inr True"
    by (auto simp: eats_def split: sum.splits)
  from update_cases [OF assms(2)] m np c f obtain s2 where
    e: "eatFood N rnd s1 = Some (Inr s2)" and s': "s' = obstaclePhase N rnd s2"
    by auto
  from moveSnake_result [OF m] obtain h where ne: "snake s \<noteq> []"
    and s1: "s1 = s\<lparr>snake := h # butlast (snake s)\<rparr>" by blast
  have "snake s1 = h # butlast (snake s)" by (simp add: s1)
  from checkCollision_nonempty [OF this] c have "h \<notin> set (butlast (snake s))" by simp
  then show ?thesis using ne e s' s1 by blast
qed

text \<open>The head after a tick that is not paused, and the snake after a tick that eats.\<close>

lemma moveSnake_head:
  assumes "moveSnake N s = Inr s1"
  shows "snake s \<noteq> []
    \<and> s1 = s\<lparr>snake := \<lparr>x = wrap N (x (hd (snake s)) + x (direction s)),
                        y = wrap N (y (hd (snake s)) + y (direction s))\<rparr> # butlast (snake s)\<rparr>"
proof (cases "snake s")
  case Nil
  then show ?thesis using assms by (simp add: moveSnake_def)
next
  case (Cons a rest)
  then show ?thesis using assms by (auto simp: moveSnake_def Let_def)
qed

lemma update_head:
  assumes "update N rnd s = Some (Inr s')" and "\<not> isPaused s"
  shows "hd (snake s') = \<lparr>x = wrap N (x (hd (snake s)) + x (direction s)),
                          y = wrap N (y (hd (snake s)) + y (direction s))\<rparr>
    \<and> isPaused s' = isPaused s \<and> snake s' \<noteq> []"
proof -
  let ?h = "\<lparr>x = wrap N (x (hd (snake s)) + x (direction s)),
             y = wrap N (y (hd (snake s)) + y (direction s))\<rparr>"
  from update_cases [OF assms(1)] assms(2) consider
      s1 where "moveSnake N s = Inr s1" "s' = endGame s1"
    | s1 where "moveSnake N s = Inr s1" "s' = obstaclePhase N rnd s1"
    | s1 s2 where "moveSnake N s = Inr s1" "eatFood N rnd s1 = Some (Inr s2)"
        "s' = obstaclePhase N rnd s2"
    by blast
  then show ?thesis
  proof cases
    case 1
    from moveSnake_head [OF 1(1)] 1(2) show ?thesis by (simp add: endGame_def)
  next
    case 2
    obtain obs d where "obstaclePhase N rnd s1 = s1\<lparr>obstacles := obs, draws := d\<rparr>"
      using obstaclePhase_frame by blast
    with moveSnake_head [OF 2(1)] 2(2) show ?thesis by simp
  next
    case 3
    obtain obs d where o: "obstaclePhase N rnd s2 = s2\<lparr>obstacles := obs, draws := d\<rparr>"
      using obstaclePhase_frame by blast
    from moveSnake_head [OF 3(1)] have e1: "s1 = s\<lparr>snake := ?h # butlast (snake s)\<rparr>" by simp
    have s1: "snake s1 = ?h # butlast (snake s)" by (subst e1) simp
    have p1: "isPaused s1 = isPaused s" by (subst e1) simp
    from eatFood_result [OF 3(2)] have "snake s2 = snake s1 @ [last (snake s1)]"
      and "isPaused s2 = isPaused s1" by simp_all
    then show ?thesis using s1 p1 o 3(3) by simp
  qed
qed

lemma eats_moved:
  assumes "eats N s"
  shows "snake s \<noteq> [] \<and> \<not> isPaused s
    \<and> moveSnake N s = Inr (s\<lparr>snake := food s # butlast (snake s)\<rparr>)
    \<and> checkCollision (s\<lparr>snake := food s # butlast (snake s)\<rparr>) = Inr False
    \<and> checkFoodCollision (s\<lparr>snake := food s # butlast (snake s)\<rparr>) = Inr True"
proof -
  from assms obtain s1 where m: "moveSnake N s = Inr s1" and np: "\<not> isPaused s"
    and c: "checkCollision s1 = Inr False" and f: "checkFoodCollision s1 = Inr True"
    by (auto simp: eats_def split: sum.splits)
  from moveSnake_result [OF m] obtain h where ne: "snake s \<noteq> []"
    and s1: "s1 = s\<lparr>snake := h # butlast (snake s)\<rparr>" by blast
  have "snake s1 = h # butlast (snake s)" "food s1 = food s" by (simp_all add: s1)
  with checkFoodCollision_nonempty [of s1 h "butlast (snake s)"] f have "h = food s" by simp
  then show ?thesis using ne np m c f s1 by simp
qed

lemma eating_tick_snake:
  assumes "eats N s" and "update N rnd s = Some (Inr s')"
  shows "snake s' = (food s # butlast (snake s)) @ [last (food s # butlast (snake s))]"
proof -
  let ?s1 = "s\<lparr>snake := food s # butlast (snake s)\<rparr>"
  from eats_moved [OF assms(1)] have np: "\<not> isPaused s" and m: "moveSnake N s = Inr ?s1"
    and c: "checkCollision ?s1 = Inr False" and f: "checkFoodCollision ?s1 = Inr True"
    by simp_all
  from update_cases [OF assms(2)] np m c f obtain s2 where
    e: "eatFood N rnd ?s1 = Some (Inr s2)" and s': "s' = obstaclePhase N rnd s2" by auto
  from eatFood_result [OF e] have "snake s2 = snake ?s1 @ [last (snake ?s1)]" by simp
  then show ?thesis using s' by (simp add: obstaclePhase_fields)
qed

text \<open>
  Distinct segments over a tick that runs and detects no collision: the new head is no cell
  of the moved body, and eating appends a copy of the tail.
\<close>

lemma tick_distinct:
  assumes "distinct (butlast (snake s))" and "\<not> isPaused s" and "\<not> collides N s"
    and "update N rnd s = Some (Inr s')"
  shows "distinct (butlast (snake s'))
    \<and> (\<not> eats N s \<longrightarrow> distinct (snake s'))
    \<and> (eats N s \<longrightarrow> \<not> distinct (snake s') \<and> last (snake s') = last (butlast (snake s')))"
proof -
  from update_cases [OF assms(4)] assms(2) obtain s1 where m: "moveSnake N s = Inr s1"
    and alt: "(checkCollision s1 = Inr True \<and> s' = endGame s1)
            \<or> (checkCollision s1 = Inr False \<and> checkFoodCollision s1 = Inr False
                \<and> s' = obstaclePhase N rnd s1)
            \<or> (checkCollision s1 = Inr False \<and> checkFoodCollision s1 = Inr True
                \<and> (\<exists>s2. eatFood N rnd s1 = Some (Inr s2) \<and> s' = obstaclePhase N rnd s2))"
    by auto
  from moveSnake_result [OF m] obtain h where ne: "snake s \<noteq> []"
    and s1: "s1 = s\<lparr>snake := h # butlast (snake s)\<rparr>" by blast
  have sn1: "snake s1 = h # butlast (snake s)" by (simp add: s1)
  have nc: "checkCollision s1 = Inr False"
    using assms(2,3) m alt by (auto simp: collides_def)
  from checkCollision_nonempty [OF sn1] nc have "h \<notin> set (butlast (snake s))" by simp
  then have d1: "distinct (snake s1)" using assms(1) by (simp add: sn1)
  show ?thesis
  proof (cases "eats N s")
    case False
    then have "checkFoodCollision s1 \<noteq> Inr True"
      using assms(2) m nc by (simp add: eats_def)
    then have "s' = obstaclePhase N rnd s1" using alt nc by auto
    then have "snake s' = snake s1" by (simp add: obstaclePhase_fields)
    then show ?thesis using d1 False by (simp add: distinct_butlast)
  next
    case True
    then have "checkFoodCollision s1 = Inr True"
      using m by (simp add: eats_def)
    then obtain s2 where e: "eatFood N rnd s1 = Some (Inr s2)" and s': "s' = obstaclePhase N rnd s2"
      using alt nc by auto
    have sn: "snake s' = snake s1 @ [last (snake s1)]"
      using eatFood_result [OF e] s' by (simp add: obstaclePhase_fields)
    have "last (snake s1) \<in> set (snake s1)" by (simp add: sn1)
    then show ?thesis using d1 True by (simp add: sn butlast_append)
  qed
qed

subsection \<open>Return of a tick that eats\<close>

text \<open>
  \<^verbatim>\<open>spawnObstacle\<close> puts the obstacle on the first free cell it draws. \<^verbatim>\<open>eatFood\<close> returns when
  its spawners find free cells, and so does the tick; a tick that eats and returns has
  found them. Otherwise the tick does not return: it throws nothing, a spawner loops forever.
\<close>

lemma spawnObstacle_first:
  assumes "spawnObstacle N rnd s = Some s'"
  shows "\<exists>k. s' = s\<lparr>draws := draws s + 2 * (k + 1),
                       obstacles := obstacles s @ [drawnCell N rnd (draws s + 2 * k)]\<rparr>
            \<and> (\<forall>j<k. drawnCell N rnd (draws s + 2 * j) \<in> set (snake s)
                      \<or> food s = drawnCell N rnd (draws s + 2 * j)
                      \<or> drawnCell N rnd (draws s + 2 * j) \<in> set (obstacles s))"
proof (induction rule: spawnObstacle.raw_induct [OF _ assms])
  case (1 spawnObstacle' N rnd s s')
  let ?c = "drawnCell N rnd (draws s)"
  have c: "\<lparr>x = \<lfloor>rnd (draws s) * of_int N\<rfloor>, y = \<lfloor>rnd (draws s + 1) * of_int N\<rfloor>\<rparr> = ?c"
    by (simp add: drawnCell_def)
  have body: "(if ?c \<notin> set (snake s) \<and> food s \<noteq> ?c \<and> ?c \<notin> set (obstacles s)
               then Some (s\<lparr>draws := draws s + 2, obstacles := obstacles s @ [?c]\<rparr>)
               else spawnObstacle' N rnd (s\<lparr>draws := draws s + 2\<rparr>)) = Some s'"
    using 1(2) by (simp only: Let_def c point_eq_iff occupies_iff)
  show ?case
  proof (cases "?c \<notin> set (snake s) \<and> food s \<noteq> ?c \<and> ?c \<notin> set (obstacles s)")
    case True
    then have "s' = s\<lparr>draws := draws s + 2 * (0 + 1),
                       obstacles := obstacles s @ [drawnCell N rnd (draws s + 2 * 0)]\<rparr>"
      using body by simp
    then show ?thesis by blast
  next
    case False
    then have "spawnObstacle' N rnd (s\<lparr>draws := draws s + 2\<rparr>) = Some s'"
      using body by (simp split: if_splits)
    from 1(1) [OF this] obtain k where
      e: "s' = s\<lparr>draws := draws s + 2 + 2 * (k + 1),
                 obstacles := obstacles s @ [drawnCell N rnd (draws s + 2 + 2 * k)]\<rparr>"
      and b: "\<forall>j<k. drawnCell N rnd (draws s + 2 + 2 * j) \<in> set (snake s)
                      \<or> food s = drawnCell N rnd (draws s + 2 + 2 * j)
                      \<or> drawnCell N rnd (draws s + 2 + 2 * j) \<in> set (obstacles s)"
      by auto
    have e': "s' = s\<lparr>draws := draws s + 2 * (Suc k + 1),
                 obstacles := obstacles s @ [drawnCell N rnd (draws s + 2 * Suc k)]\<rparr>"
      using e by (simp add: algebra_simps)
    have "drawnCell N rnd (draws s + 2 * j) \<in> set (snake s)
                      \<or> food s = drawnCell N rnd (draws s + 2 * j)
                      \<or> drawnCell N rnd (draws s + 2 * j) \<in> set (obstacles s)"
      if "j < Suc k" for j
    proof (cases j)
      case 0
      then show ?thesis using False by auto
    next
      case (Suc i)
      then have "i < k" using that by simp
      with b have "drawnCell N rnd (draws s + 2 + 2 * i) \<in> set (snake s)
                      \<or> food s = drawnCell N rnd (draws s + 2 + 2 * i)
                      \<or> drawnCell N rnd (draws s + 2 + 2 * i) \<in> set (obstacles s)" by simp
      then show ?thesis using Suc by (simp add: algebra_simps)
    qed
    with e' show ?thesis by blast
  qed
qed

lemma eatFood_returns:
  assumes ne: "snake s \<noteq> []"
    and due: "score s + 10 \<ge> 50 \<and> (score s + 10) mod 50 = 0 \<longrightarrow>
       (\<exists>k1 k2. k1 < k2
          \<and> drawnCell N rnd (draws s + 2 * k1) \<notin> insert (food s) (set (snake s) \<union> set (obstacles s))
          \<and> drawnCell N rnd (draws s + 2 * k2) \<notin> set (snake s) \<union> set (obstacles s)
          \<and> (\<forall>j\<le>k1. drawnCell N rnd (draws s + 2 * k2) \<noteq> drawnCell N rnd (draws s + 2 * j)))"
    and plain: "\<not> (score s + 10 \<ge> 50 \<and> (score s + 10) mod 50 = 0) \<longrightarrow>
       (\<exists>k. drawnCell N rnd (draws s + 2 * k) \<notin> set (snake s) \<union> set (obstacles s))"
  shows "\<exists>s'. eatFood N rnd s = Some (Inr s')"
proof (cases "score s + 10 \<ge> 50 \<and> (score s + 10) mod 50 = 0")
  case False
  have grown: "set (snake s @ [last (snake s)]) = set (snake s)"
    using ne by (simp add: insert_absorb)
  from False plain obtain k where k: "drawnCell N rnd (draws s + 2 * k) \<notin> set (snake s) \<union> set (obstacles s)"
    by blast
  have f: "snake (sped (scored s)) = snake s @ [last (snake s)]"
    "obstacles (sped (scored s)) = obstacles s" "draws (sped (scored s)) = draws s"
    by (simp_all add: sped_def scored_def)
  have a: "drawnCell N rnd (draws (sped (scored s)) + 2 * k) \<notin> set (snake (sped (scored s)))"
    unfolding f grown using k by simp
  have b: "drawnCell N rnd (draws (sped (scored s)) + 2 * k) \<notin> set (obstacles (sped (scored s)))"
    unfolding f using k by simp
  from spawnFood_returns [OF a b] obtain s' where "spawnFood N rnd (sped (scored s)) = Some s'"
    by blast
  then have "eatFood N rnd s = Some (Inr s')"
    unfolding eatFood_nonempty [OF ne] if_not_P [OF False] by simp
  then show ?thesis by blast
next
  case True
  have grown: "set (snake s @ [last (snake s)]) = set (snake s)"
    using ne by (simp add: insert_absorb)
  from mp [OF due True] obtain k1 k2 where lt: "k1 < k2"
    and f1: "drawnCell N rnd (draws s + 2 * k1) \<notin> insert (food s) (set (snake s) \<union> set (obstacles s))"
    and f2: "drawnCell N rnd (draws s + 2 * k2) \<notin> set (snake s) \<union> set (obstacles s)"
    and fresh: "\<forall>j\<le>k1. drawnCell N rnd (draws s + 2 * k2) \<noteq> drawnCell N rnd (draws s + 2 * j)"
    by (elim exE conjE) (rule that, assumption+)
  have sc: "snake (scored s) = snake s @ [last (snake s)]" "food (scored s) = food s"
    "obstacles (scored s) = obstacles s" "draws (scored s) = draws s"
    by (simp_all add: scored_def)
  have a1: "drawnCell N rnd (draws (scored s) + 2 * k1) \<notin> set (snake (scored s))"
    unfolding sc grown using f1 by simp
  have a2: "food (scored s) \<noteq> drawnCell N rnd (draws (scored s) + 2 * k1)"
    unfolding sc using f1 by auto
  have a3: "drawnCell N rnd (draws (scored s) + 2 * k1) \<notin> set (obstacles (scored s))"
    unfolding sc using f1 by simp
  from spawnObstacle_returns [OF a1 a2 a3]
  obtain s4 where s4: "spawnObstacle N rnd (scored s) = Some s4" by blast
  from spawnObstacle_first [OF s4] obtain k0 where
    e: "s4 = (scored s)\<lparr>draws := draws s + 2 * (k0 + 1),
                 obstacles := obstacles s @ [drawnCell N rnd (draws s + 2 * k0)]\<rparr>"
    and before: "\<forall>j<k0. drawnCell N rnd (draws s + 2 * j) \<in> set (snake s)
                      \<or> food s = drawnCell N rnd (draws s + 2 * j)
                      \<or> drawnCell N rnd (draws s + 2 * j) \<in> set (obstacles s)"
    unfolding sc grown by blast
  have le: "k0 \<le> k1"
  proof (rule ccontr)
    assume "\<not> k0 \<le> k1"
    then have "k1 < k0" by simp
    with before have "drawnCell N rnd (draws s + 2 * k1) \<in> set (snake s)
                      \<or> food s = drawnCell N rnd (draws s + 2 * k1)
                      \<or> drawnCell N rnd (draws s + 2 * k1) \<in> set (obstacles s)" by simp
    with f1 show False by auto
  qed
  have f: "snake (sped s4) = snake s @ [last (snake s)]"
    "obstacles (sped s4) = obstacles s @ [drawnCell N rnd (draws s + 2 * k0)]"
    "draws (sped s4) = draws s + 2 * (k0 + 1)"
    by (simp_all add: sped_def e sc)
  have idx: "draws s + 2 * (k0 + 1) + 2 * (k2 - k0 - 1) = draws s + 2 * k2"
    using le lt by simp
  have ne0: "drawnCell N rnd (draws s + 2 * k2) \<noteq> drawnCell N rnd (draws s + 2 * k0)"
    using fresh le by simp
  have b1: "drawnCell N rnd (draws (sped s4) + 2 * (k2 - k0 - 1)) \<notin> set (snake (sped s4))"
    unfolding f idx grown using f2 by simp
  have b2: "drawnCell N rnd (draws (sped s4) + 2 * (k2 - k0 - 1)) \<notin> set (obstacles (sped s4))"
    unfolding f idx using f2 ne0 by simp
  from spawnFood_returns [OF b1 b2] obtain s' where "spawnFood N rnd (sped s4) = Some s'"
    by blast
  then have "eatFood N rnd s = Some (Inr s')"
    unfolding eatFood_nonempty [OF ne] if_P [OF True] s4 by simp
  then show ?thesis by blast
qed

lemma eating_tick_returns:
  assumes "eats N s" and "spawnsReturn N rnd s"
  shows "\<exists>s'. update N rnd s = Some (Inr s')"
proof -
  let ?s1 = "s\<lparr>snake := food s # butlast (snake s)\<rparr>"
  let ?occ = "insert (food s) (set (butlast (snake s)) \<union> set (obstacles s))"
  from eats_moved [OF assms(1)] have np: "\<not> isPaused s" and m: "moveSnake N s = Inr ?s1"
    and c: "checkCollision ?s1 = Inr False" and f: "checkFoodCollision ?s1 = Inr True"
    by simp_all
  have occ: "insert (food ?s1) (set (snake ?s1) \<union> set (obstacles ?s1)) = ?occ"
    "set (snake ?s1) \<union> set (obstacles ?s1) = ?occ"
    by simp_all
  have fields: "score ?s1 = score s" "draws ?s1 = draws s" by simp_all
  define b where "b = (score s + 10 \<ge> 50 \<and> (score s + 10) mod 50 = 0)"
  have sr: "if b
      then \<exists>k1 k2. k1 < k2
          \<and> drawnCell N rnd (draws s + 2 * k1) \<notin> ?occ
          \<and> drawnCell N rnd (draws s + 2 * k2) \<notin> ?occ
          \<and> (\<forall>j\<le>k1. drawnCell N rnd (draws s + 2 * k2) \<noteq> drawnCell N rnd (draws s + 2 * j))
      else \<exists>k. drawnCell N rnd (draws s + 2 * k) \<notin> ?occ"
    using assms(2) unfolding spawnsReturn_def Let_def b_def .
  have due: "score s + 10 \<ge> 50 \<and> (score s + 10) mod 50 = 0 \<longrightarrow>
       (\<exists>k1 k2. k1 < k2
          \<and> drawnCell N rnd (draws s + 2 * k1) \<notin> ?occ
          \<and> drawnCell N rnd (draws s + 2 * k2) \<notin> ?occ
          \<and> (\<forall>j\<le>k1. drawnCell N rnd (draws s + 2 * k2) \<noteq> drawnCell N rnd (draws s + 2 * j)))"
    using sr unfolding b_def [symmetric] by (cases b) simp_all
  have plain: "\<not> (score s + 10 \<ge> 50 \<and> (score s + 10) mod 50 = 0) \<longrightarrow>
       (\<exists>k. drawnCell N rnd (draws s + 2 * k) \<notin> ?occ)"
    using sr unfolding b_def [symmetric] by (cases b) simp_all
  have "\<exists>s2. eatFood N rnd ?s1 = Some (Inr s2)"
  proof (rule eatFood_returns)
    show "snake ?s1 \<noteq> []" by simp
  next
    show "score ?s1 + 10 \<ge> 50 \<and> (score ?s1 + 10) mod 50 = 0 \<longrightarrow>
       (\<exists>k1 k2. k1 < k2
          \<and> drawnCell N rnd (draws ?s1 + 2 * k1) \<notin> insert (food ?s1) (set (snake ?s1) \<union> set (obstacles ?s1))
          \<and> drawnCell N rnd (draws ?s1 + 2 * k2) \<notin> set (snake ?s1) \<union> set (obstacles ?s1)
          \<and> (\<forall>j\<le>k1. drawnCell N rnd (draws ?s1 + 2 * k2) \<noteq> drawnCell N rnd (draws ?s1 + 2 * j)))"
      using due by simp
  next
    show "\<not> (score ?s1 + 10 \<ge> 50 \<and> (score ?s1 + 10) mod 50 = 0) \<longrightarrow>
       (\<exists>k. drawnCell N rnd (draws ?s1 + 2 * k) \<notin> set (snake ?s1) \<union> set (obstacles ?s1))"
      using plain by simp
  qed
  then obtain s2 where "eatFood N rnd ?s1 = Some (Inr s2)" by blast
  then show ?thesis
    unfolding update_def using np by (simp add: m c f)
qed

lemma eating_tick_returned:
  assumes "eats N s" and "update N rnd s = Some (Inr s')"
  shows "spawnsReturn N rnd s"
proof -
  let ?s1 = "s\<lparr>snake := food s # butlast (snake s)\<rparr>"
  let ?occ = "insert (food s) (set (butlast (snake s)) \<union> set (obstacles s))"
  define b where "b = (score s + 10 \<ge> 50 \<and> (score s + 10) mod 50 = 0)"
  from eats_moved [OF assms(1)] have np: "\<not> isPaused s" and m: "moveSnake N s = Inr ?s1"
    and c: "checkCollision ?s1 = Inr False" and f: "checkFoodCollision ?s1 = Inr True"
    by simp_all
  from update_cases [OF assms(2)] np m c f obtain s2 where
    e: "eatFood N rnd ?s1 = Some (Inr s2)" by auto
  have ne: "snake ?s1 \<noteq> []" by simp
  have sc: "snake (scored ?s1) = food s # butlast (snake s) @ [last (food s # butlast (snake s))]"
    "food (scored ?s1) = food s" "obstacles (scored ?s1) = obstacles s"
    "draws (scored ?s1) = draws s" "score ?s1 = score s"
    by (simp_all add: scored_def)
  have grown: "set (food s # butlast (snake s) @ [last (food s # butlast (snake s))])
               = insert (food s) (set (butlast (snake s)))"
    by auto
  from e obtain s4 where
    s4: "(if b then spawnObstacle N rnd (scored ?s1) else Some (scored ?s1)) = Some s4"
    and s6: "spawnFood N rnd (sped s4) = Some s2"
    unfolding eatFood_nonempty [OF ne] sc b_def by (auto split: option.splits)
  have goal: "if b
      then \<exists>k1 k2. k1 < k2
          \<and> drawnCell N rnd (draws s + 2 * k1) \<notin> ?occ
          \<and> drawnCell N rnd (draws s + 2 * k2) \<notin> ?occ
          \<and> (\<forall>j\<le>k1. drawnCell N rnd (draws s + 2 * k2) \<noteq> drawnCell N rnd (draws s + 2 * j))
      else \<exists>k. drawnCell N rnd (draws s + 2 * k) \<notin> ?occ"
  proof (cases b)
    case False
    then have "s4 = scored ?s1" using s4 by simp
    then have f4: "snake (sped s4) = food s # butlast (snake s) @ [last (food s # butlast (snake s))]"
      "obstacles (sped s4) = obstacles s" "draws (sped s4) = draws s"
      by (simp_all add: sped_def sc)
    from spawnFood_returned [OF s6] obtain k where
      "drawnCell N rnd (draws s + 2 * k) \<notin> insert (food s) (set (butlast (snake s)))"
      "drawnCell N rnd (draws s + 2 * k) \<notin> set (obstacles s)"
      unfolding f4 grown by blast
    then have "drawnCell N rnd (draws s + 2 * k) \<notin> ?occ" by simp
    then show ?thesis using False by auto
  next
    case True
    then have so: "spawnObstacle N rnd (scored ?s1) = Some s4" using s4 by simp
    from spawnObstacle_first [OF so] obtain k0 where
      e4: "s4 = (scored ?s1)\<lparr>draws := draws s + 2 * (k0 + 1),
                 obstacles := obstacles s @ [drawnCell N rnd (draws s + 2 * k0)]\<rparr>"
      and before: "\<forall>j<k0. drawnCell N rnd (draws s + 2 * j) \<in> insert (food s) (set (butlast (snake s)))
                      \<or> food s = drawnCell N rnd (draws s + 2 * j)
                      \<or> drawnCell N rnd (draws s + 2 * j) \<in> set (obstacles s)"
      unfolding sc grown by (elim exE conjE) (rule that, assumption+)
    from spawnObstacle_result [OF so] obtain d c0 where
      r4: "s4 = (scored ?s1)\<lparr>draws := d, obstacles := obstacles s @ [c0]\<rparr>"
      and free0: "c0 \<notin> insert (food s) (set (butlast (snake s)))" "c0 \<noteq> food s"
        "c0 \<notin> set (obstacles s)"
      unfolding sc grown by (elim exE conjE) (rule that, assumption+)
    have "obstacles s4 = obstacles s @ [drawnCell N rnd (draws s + 2 * k0)]" by (subst e4) simp
    moreover have "obstacles s4 = obstacles s @ [c0]" by (subst r4) simp
    ultimately have c0: "c0 = drawnCell N rnd (draws s + 2 * k0)" by simp
    have f4: "snake (sped s4) = food s # butlast (snake s) @ [last (food s # butlast (snake s))]"
      "obstacles (sped s4) = obstacles s @ [drawnCell N rnd (draws s + 2 * k0)]"
      "draws (sped s4) = draws s + 2 * (k0 + 1)"
      by (simp_all add: sped_def e4 sc)
    from spawnFood_returned [OF s6] obtain k where
      n1: "drawnCell N rnd (draws s + 2 * (k0 + 1) + 2 * k) \<notin> insert (food s) (set (butlast (snake s)))"
      and n2: "drawnCell N rnd (draws s + 2 * (k0 + 1) + 2 * k)
               \<notin> set (obstacles s @ [drawnCell N rnd (draws s + 2 * k0)])"
      unfolding f4 grown by blast
    define k2 where "k2 = k0 + 1 + k"
    have idx: "draws s + 2 * (k0 + 1) + 2 * k = draws s + 2 * k2" by (simp add: k2_def)
    have lt: "k0 < k2" by (simp add: k2_def)
    have free1: "drawnCell N rnd (draws s + 2 * k0) \<notin> ?occ"
      using free0 c0 by simp
    have free2: "drawnCell N rnd (draws s + 2 * k2) \<notin> ?occ"
      using n1 n2 unfolding idx by simp
    have ne0: "drawnCell N rnd (draws s + 2 * k2) \<noteq> drawnCell N rnd (draws s + 2 * k0)"
      using n2 unfolding idx by simp
    have fresh: "drawnCell N rnd (draws s + 2 * k2) \<noteq> drawnCell N rnd (draws s + 2 * j)"
      if "j \<le> k0" for j
    proof (cases "j = k0")
      case True
      then show ?thesis using ne0 by simp
    next
      case False
      then have "j < k0" using that by simp
      with before have "drawnCell N rnd (draws s + 2 * j) \<in> ?occ" by auto
      with free2 show ?thesis by metis
    qed
    have "\<exists>k1 k2. k1 < k2
          \<and> drawnCell N rnd (draws s + 2 * k1) \<notin> ?occ
          \<and> drawnCell N rnd (draws s + 2 * k2) \<notin> ?occ
          \<and> (\<forall>j\<le>k1. drawnCell N rnd (draws s + 2 * k2) \<noteq> drawnCell N rnd (draws s + 2 * j))"
      using lt free1 free2 fresh by blast
    then show ?thesis using True by simp
  qed
  then show ?thesis
    unfolding spawnsReturn_def Let_def b_def .
qed

lemma eating_tick_loops:
  assumes "eats N s" and "\<not> spawnsReturn N rnd s"
  shows "update N rnd s = None"
proof -
  let ?s1 = "s\<lparr>snake := food s # butlast (snake s)\<rparr>"
  from eats_moved [OF assms(1)] have np: "\<not> isPaused s" and m: "moveSnake N s = Inr ?s1"
    and c: "checkCollision ?s1 = Inr False" and f: "checkFoodCollision ?s1 = Inr True"
    by simp_all
  have ne: "snake ?s1 \<noteq> []" by simp
  have "eatFood N rnd ?s1 \<noteq> Some (Inl e)" for e
    unfolding eatFood_nonempty [OF ne] by (simp split: option.splits)
  moreover have "eatFood N rnd ?s1 \<noteq> Some (Inr s2)" for s2
  proof
    assume "eatFood N rnd ?s1 = Some (Inr s2)"
    then have "update N rnd s = Some (Inr (obstaclePhase N rnd s2))"
      unfolding update_def using np by (simp add: m c f)
    from eating_tick_returned [OF assms(1) this] assms(2) show False by simp
  qed
  ultimately have "eatFood N rnd ?s1 = None"
    by (cases "eatFood N rnd ?s1") (auto intro: sum.exhaust)
  then show ?thesis
    unfolding update_def using np by (simp add: m c f)
qed

lemma eating_tick_return:
  assumes "eats N s"
  shows "(\<exists>t. update N rnd s = Some (Inr t)) = spawnsReturn N rnd s"
    and "(update N rnd s = None) = (\<not> spawnsReturn N rnd s)"
proof -
  show r: "(\<exists>t. update N rnd s = Some (Inr t)) = spawnsReturn N rnd s"
    using eating_tick_returns [OF assms] eating_tick_returned [OF assms] by blast
  show "(update N rnd s = None) = (\<not> spawnsReturn N rnd s)"
    using eating_tick_loops [OF assms, of rnd] r by auto
qed

subsection \<open>The example game\<close>

text \<open>
  The example states are what the handlers compute, and \<open>eatState\<close> is reachable. The game
  goes on: a second food, a tick to the right, the keys ArrowUp and ArrowLeft, and the tick
  that runs the head into the body.
\<close>

lemma reset_example:
  "resetGame 20 rndExample (initial 0) = Some (eatState\<lparr>direction := \<lparr>x = 0, y = 0\<rparr>\<rparr>)"
  unfolding resetGame_def
  by (subst spawnFood.simps) (simp add: initial_def eatState_def rndExample_def occupies_def)

lemma key_example:
  "handleKeyPress ''ArrowRight'' (eatState\<lparr>direction := \<lparr>x = 0, y = 0\<rparr>\<rparr>) = eatState"
  by (simp add: handleKeyPress_def eatState_def)

lemma eatState_reachable: "reachable 20 rndExample eatState"
proof -
  have "reachable 20 rndExample (initial 0)" by (rule reachable.loaded)
  then have "reachable 20 rndExample (eatState\<lparr>direction := \<lparr>x = 0, y = 0\<rparr>\<rparr>)"
    using reset_example by (rule reachable.restart)
  then have "reachable 20 rndExample
      (handleKeyPress ''ArrowRight'' (eatState\<lparr>direction := \<lparr>x = 0, y = 0\<rparr>\<rparr>))"
    by (rule reachable.key)
  then show ?thesis by (simp only: key_example)
qed

lemma eatState_moved:
  "moveSnake 20 eatState = Inr (eatState\<lparr>snake := [\<lparr>x = 11, y = 10\<rparr>]\<rparr>)"
  by (simp add: moveSnake_def eatState_def wrap_def)

lemma eatState_eats: "eats 20 eatState"
  unfolding eats_def eatState_moved
  by (simp add: eatState_def checkCollision_def checkFoodCollision_def selfCollision.simps)

lemma eatState_food:
  "spawnFood 20 rndExample (sped (scored (eatState\<lparr>snake := [\<lparr>x = 11, y = 10\<rparr>]\<rparr>))) = Some eatenState"
  by (subst spawnFood.simps)
     (simp add: eatState_def eatenState_def scored_def sped_def rndExample_def occupies_def
        minSpeed_def speedIncrement_def)

lemma eatState_eaten:
  "eatFood 20 rndExample (eatState\<lparr>snake := [\<lparr>x = 11, y = 10\<rparr>]\<rparr>) = Some (Inr eatenState)"
proof -
  have ne: "snake (eatState\<lparr>snake := [\<lparr>x = 11, y = 10\<rparr>]\<rparr>) \<noteq> []" by simp
  have sc: "score (eatState\<lparr>snake := [\<lparr>x = 11, y = 10\<rparr>]\<rparr>) = 0" by (simp add: eatState_def)
  show ?thesis
    unfolding eatFood_nonempty [OF ne] sc by (simp add: eatState_food)
qed

lemma eatState_tick: "update 20 rndExample eatState = Some (Inr eatenState)"
proof -
  have c: "checkCollision (eatState\<lparr>snake := [\<lparr>x = 11, y = 10\<rparr>]\<rparr>) = Inr False"
    by (simp add: eatState_def checkCollision_def selfCollision.simps)
  have f: "checkFoodCollision (eatState\<lparr>snake := [\<lparr>x = 11, y = 10\<rparr>]\<rparr>) = Inr True"
    by (simp add: eatState_def checkFoodCollision_def)
  have p: "\<not> isPaused eatState" by (simp add: eatState_def)
  have o: "obstaclePhase 20 rndExample eatenState = eatenState"
    by (simp add: obstaclePhase_def eatenState_def)
  show ?thesis
    unfolding update_def using p by (simp add: eatState_moved c f eatState_eaten o)
qed

lemma eatenState_tick: "update 20 rndExample eatenState = Some (Inr grownState)"
proof -
  let ?m = "eatenState\<lparr>snake := [\<lparr>x = 12, y = 10\<rparr>, \<lparr>x = 11, y = 10\<rparr>]\<rparr>"
  have m: "moveSnake 20 eatenState = Inr ?m"
    by (simp add: moveSnake_def eatenState_def wrap_def)
  have c: "checkCollision ?m = Inr False"
    by (simp add: eatenState_def checkCollision_def selfCollision.simps)
  have f: "checkFoodCollision ?m = Inr True"
    by (simp add: eatenState_def checkFoodCollision_def)
  have ne: "snake ?m \<noteq> []" by simp
  have sc: "score ?m = 10" by (simp add: eatenState_def)
  have sp: "spawnFood 20 rndExample (sped (scored ?m)) = Some grownState"
    by (subst spawnFood.simps)
       (simp add: eatenState_def grownState_def scored_def sped_def rndExample_def occupies_def
          minSpeed_def speedIncrement_def)
  have e: "eatFood 20 rndExample ?m = Some (Inr grownState)"
    unfolding eatFood_nonempty [OF ne] sc by (simp add: sp)
  have p: "\<not> isPaused eatenState" by (simp add: eatenState_def)
  have o: "obstaclePhase 20 rndExample grownState = grownState"
    by (simp add: obstaclePhase_def grownState_def)
  show ?thesis
    unfolding update_def using p by (simp add: m c f e o)
qed

lemma grownState_tick: "update 20 rndExample grownState = Some (Inr turnState)"
proof -
  have m: "moveSnake 20 grownState = Inr turnState"
    by (simp add: moveSnake_def grownState_def turnState_def wrap_def)
  have c: "checkCollision turnState = Inr False"
    by (simp add: turnState_def checkCollision_def selfCollision.simps)
  have f: "checkFoodCollision turnState = Inr False"
    by (simp add: turnState_def checkFoodCollision_def)
  have p: "\<not> isPaused grownState" by (simp add: grownState_def)
  have o: "obstaclePhase 20 rndExample turnState = turnState"
    by (simp add: obstaclePhase_def turnState_def)
  show ?thesis
    unfolding update_def using p by (simp add: m c f o)
qed

lemma turnState_keys:
  "handleKeyPress ''ArrowLeft'' (handleKeyPress ''ArrowUp'' turnState)
     = turnState\<lparr>direction := \<lparr>x = -1, y = 0\<rparr>\<rparr>"
  by (simp add: handleKeyPress_def turnState_def)

lemma turnState_tick:
  "update 20 rndExample (turnState\<lparr>direction := \<lparr>x = -1, y = 0\<rparr>\<rparr>) = Some (Inr overState)"
proof -
  let ?t = "turnState\<lparr>direction := \<lparr>x = -1, y = 0\<rparr>\<rparr>"
  have m: "moveSnake 20 ?t = Inr (overState\<lparr>gameLoop := Some 140\<rparr>)"
    by (simp add: moveSnake_def turnState_def overState_def wrap_def)
  have c: "checkCollision (overState\<lparr>gameLoop := Some 140\<rparr>) = Inr True"
    by (simp add: checkCollision_def overState_def selfCollision.simps)
  have p: "\<not> isPaused ?t" by (simp add: turnState_def)
  have e: "endGame (overState\<lparr>gameLoop := Some 140\<rparr>) = overState"
    by (simp add: endGame_def overState_def)
  show ?thesis
    unfolding update_def using p by (simp add: m c e)
qed

lemma eatState_goes_on: "\<not> collides 20 eatState"
  unfolding collides_def eatState_moved
  by (simp add: eatState_def checkCollision_def selfCollision.simps)

lemma eatenState_goes_on: "\<not> collides 20 eatenState" and eatenState_eats: "eats 20 eatenState"
  by (simp_all add: collides_def eats_def moveSnake_def eatenState_def wrap_def
        checkCollision_def checkFoodCollision_def selfCollision.simps)

lemma grownState_goes_on: "\<not> collides 20 grownState" and grownState_moves: "\<not> eats 20 grownState"
  by (simp_all add: collides_def eats_def moveSnake_def grownState_def wrap_def
        checkCollision_def checkFoodCollision_def selfCollision.simps)

subsection \<open>A longer game\<close>

text \<open>The states of a run are reachable, and the longer game is what the handlers compute.\<close>

lemma step_reachable:
  assumes "reachable N rnd s" and "step N rnd s e = Some s'"
  shows "reachable N rnd s'"
proof (cases e)
  case (Key k)
  then show ?thesis using assms by (auto intro: reachable.key)
next
  case Start
  then show ?thesis using assms by (auto intro: reachable.start)
next
  case Pause
  then show ?thesis using assms by (auto intro: reachable.pause)
next
  case Restart
  then show ?thesis using assms by (auto intro: reachable.restart)
next
  case Tick
  then have "gameLoop s \<noteq> None" and "update N rnd s = Some (Inr s')"
    using assms(2) by (auto split: if_splits option.splits sum.splits)
  with assms(1) show ?thesis by (rule reachable.tick)
qed

lemma play_reachable:
  "reachable N rnd s \<Longrightarrow> play N rnd s es = Some s' \<Longrightarrow> reachable N rnd s'"
proof (induction es arbitrary: s)
  case Nil
  then show ?case by simp
next
  case (Cons e es)
  from Cons.prems(2) obtain t where t: "step N rnd s e = Some t" and r: "play N rnd t es = Some s'"
    by (auto split: option.splits)
  from step_reachable [OF Cons.prems(1) t] have "reachable N rnd t" .
  from Cons.IH [OF this r] show ?case .
qed

lemma spawnFood_hit:
  "drawnCell N rnd (draws s) \<notin> set (snake s) \<Longrightarrow> drawnCell N rnd (draws s) \<notin> set (obstacles s)
   \<Longrightarrow> spawnFood N rnd s = Some (s\<lparr>draws := draws s + 2, food := drawnCell N rnd (draws s)\<rparr>)"
  by (subst spawnFood_unfold) simp

lemma spawnObstacle_hit:
  "drawnCell N rnd (draws s) \<notin> set (snake s) \<Longrightarrow> food s \<noteq> drawnCell N rnd (draws s)
   \<Longrightarrow> drawnCell N rnd (draws s) \<notin> set (obstacles s)
   \<Longrightarrow> spawnObstacle N rnd s
       = Some (s\<lparr>draws := draws s + 2, obstacles := obstacles s @ [drawnCell N rnd (draws s)]\<rparr>)"
  by (subst spawnObstacle_unfold) simp

lemmas run_simps =
  update_def moveSnake_def wrap_def checkCollision_def checkFoodCollision_def
  selfCollision.simps eatFood_nonempty scored_def sped_def minSpeed_def speedIncrement_def
  spawnFood_hit spawnObstacle_hit drawnCell_def rndGame_def gameDraws_def
  obstaclePhase_def moveObstacles_def moveObstacle_def endGame_def
  resetGame_def handleKeyPress_def initial_def

lemma game4_played:
  "play 20 rndGame (initial 0) [Restart, Key ''ArrowRight'', Tick, Tick, Tick, Tick] = Some game4"
  by (simp add: run_simps game4_def)

lemma game4_tick: "update 20 rndGame game4 = Some (Inr game5)"
  by (simp add: run_simps game4_def game5_def)

lemma game20_played:
  "play 20 rndGame game5
     [Tick, Tick, Tick, Tick, Key ''ArrowDown'', Tick, Tick, Tick, Tick, Tick, Tick, Tick,
      Tick, Tick, Tick, Tick] = Some game20"
  by (simp add: run_simps game5_def game20_def)

lemma game20_tick: "update 20 rndGame game20 = Some (Inr game21)"
  by (simp add: run_simps game20_def game21_def)

lemma game4_reachable: "reachable 20 rndGame game4"
  using reachable.loaded game4_played by (rule play_reachable)

lemma game20_reachable: "reachable 20 rndGame game20"
proof -
  have "gameLoop game4 \<noteq> None" by (simp add: game4_def)
  with game4_reachable have "reachable 20 rndGame game5"
    using game4_tick by (rule reachable.tick)
  then show ?thesis using game20_played by (rule play_reachable)
qed

lemma game4_eats: "eats 20 game4"
  by (simp add: eats_def moveSnake_def game4_def wrap_def
        checkCollision_def checkFoodCollision_def selfCollision.simps)

lemma game20_eats: "eats 20 game20"
  by (simp add: eats_def moveSnake_def game20_def wrap_def
        checkCollision_def checkFoodCollision_def selfCollision.simps)

lemma resumedState_played:
  "play 20 rndGame game4 [Key ''ArrowUp'', Key ''ArrowLeft'', Tick, Start] = Some resumedState"
  by (simp add: run_simps startGame_def game4_def resumedState_def)

lemma resumedState_reachable: "reachable 20 rndGame resumedState"
  using game4_reachable resumedState_played by (rule play_reachable)

text \<open>The example game can go on to a tick that never returns.\<close>

lemma stuckState_played:
  "play 20 rndExample grownState
     [Key ''ArrowUp'', Tick, Tick, Tick, Tick, Tick,
      Key ''ArrowLeft'', Tick, Tick, Tick, Tick, Tick, Tick] = Some stuckState"
  by (simp add: run_simps grownState_def stuckState_def)

lemma stuckState_eats: "eats 20 stuckState"
  by (simp add: eats_def moveSnake_def stuckState_def wrap_def
        checkCollision_def checkFoodCollision_def selfCollision.simps)

lemma stuckState_loops: "\<not> spawnsReturn 20 rndExample stuckState"
  by (simp add: spawnsReturn_def drawnCell_def rndExample_def stuckState_def)

subsection \<open>Growth\<close>

text \<open>
  Claim C2, as the script has it. A tick that eats returns exactly when its spawners find
  free cells, and otherwise never returns. When it returns, a snake of length \<open>n \<ge> 1\<close> has
  come out with length \<open>n + 1\<close> and its head on the cell of the food. Its front is the moved
  snake: the new head followed by the old segments without the old tail. Its new tail is a
  copy of the tail after the move: it is on the new head when \<open>n = 1\<close>, and on the cell of
  the old second-to-last segment when \<open>n \<ge> 2\<close>. That is the cell of the old tail exactly
  when the last two old segments were on one cell.
\<close>

theorem eating_tick_grows:
  assumes "eats N s"
  shows "((\<exists>t. update N rnd s = Some (Inr t)) = spawnsReturn N rnd s)
    \<and> ((update N rnd s = None) = (\<not> spawnsReturn N rnd s))
    \<and> (update N rnd s = Some (Inr s') \<longrightarrow>
          length (snake s') = length (snake s) + 1
        \<and> hd (snake s') = food s
        \<and> butlast (snake s') = hd (snake s') # butlast (snake s)
        \<and> last (snake s') = last (butlast (snake s'))
        \<and> (length (snake s) = 1 \<longrightarrow> last (snake s') = hd (snake s'))
        \<and> (length (snake s) \<ge> 2 \<longrightarrow>
              last (snake s') = snake s ! (length (snake s) - 2)
              \<and> ((last (snake s') = last (snake s))
                  = (snake s ! (length (snake s) - 2) = snake s ! (length (snake s) - 1)))))"
proof -
  note ret = eating_tick_return [OF assms, of rnd]
  have res: "length (snake s') = length (snake s) + 1
        \<and> hd (snake s') = food s
        \<and> butlast (snake s') = hd (snake s') # butlast (snake s)
        \<and> last (snake s') = last (butlast (snake s'))
        \<and> (length (snake s) = 1 \<longrightarrow> last (snake s') = hd (snake s'))
        \<and> (length (snake s) \<ge> 2 \<longrightarrow>
              last (snake s') = snake s ! (length (snake s) - 2)
              \<and> ((last (snake s') = last (snake s))
                  = (snake s ! (length (snake s) - 2) = snake s ! (length (snake s) - 1))))"
    if u: "update N rnd s = Some (Inr s')"
  proof -
    let ?m = "food s # butlast (snake s)"
    have sn: "snake s' = ?m @ [last ?m]" by (rule eating_tick_snake [OF assms u])
    have ne: "snake s \<noteq> []" using eats_moved [OF assms] by simp
    have len: "length (snake s') = length (snake s) + 1"
      using ne by (simp add: sn)
    have hd: "hd (snake s') = food s" by (simp add: sn)
    have bl: "butlast (snake s') = hd (snake s') # butlast (snake s)"
      by (simp add: sn butlast_append)
    have la: "last (snake s') = last (butlast (snake s'))"
      by (simp add: sn butlast_append)
    have one: "last (snake s') = hd (snake s')" if "length (snake s) = 1"
    proof -
      from that have "butlast (snake s) = []" by (cases "snake s") auto
      then show ?thesis by (simp add: sn)
    qed
    have two: "last (snake s') = snake s ! (length (snake s) - 2)" if "length (snake s) \<ge> 2"
    proof -
      from that have b: "butlast (snake s) \<noteq> []"
        by (cases "snake s") auto
      then have "last (snake s') = last (butlast (snake s))" by (simp add: sn)
      also have "\<dots> = butlast (snake s) ! (length (butlast (snake s)) - 1)"
        using b by (rule last_conv_nth)
      also have "\<dots> = snake s ! (length (snake s) - 2)"
        using that by (simp add: nth_butlast numeral_2_eq_2)
      finally show ?thesis .
    qed
    have l: "last (snake s) = snake s ! (length (snake s) - 1)"
      using ne by (rule last_conv_nth)
    have same: "(last (snake s') = last (snake s))
                  = (snake s ! (length (snake s) - 2) = snake s ! (length (snake s) - 1))"
      if "length (snake s) \<ge> 2"
      using two [OF that] l by simp
    show ?thesis using len hd bl la one two same by blast
  qed
  show ?thesis using ret res by blast
qed

text \<open>
  Against claim C2 as stated: in the example the old tail was on \<open>(10, 10)\<close>, and after the
  eating tick the new tail is on \<open>(11, 10)\<close>, under the head.
\<close>

theorem tail_cell_counterexample:
  "eats 20 eatState \<and> update 20 rndExample eatState = Some (Inr eatenState)
   \<and> last (snake eatState) = \<lparr>x = 10, y = 10\<rparr>
   \<and> last (snake eatenState) = \<lparr>x = 11, y = 10\<rparr>
   \<and> last (snake eatenState) \<noteq> last (snake eatState)"
  using eatState_eats eatState_tick by (simp add: eatState_def eatenState_def)

text \<open>
  The two eating ticks of the example: the first from a snake of one segment, the second
  from a snake whose two segments are on one cell, as the first has left them. And the
  tick from \<open>stuckState\<close>, which eats and does not return.
\<close>

theorem eating_tick_grows_witness:
  "eats 20 eatState \<and> spawnsReturn 20 rndExample eatState
   \<and> update 20 rndExample eatState = Some (Inr eatenState)
   \<and> length (snake eatState) = 1 \<and> length (snake eatenState) = 2
   \<and> hd (snake eatenState) = food eatState
   \<and> last (snake eatenState) = hd (snake eatenState)
   \<and> last (snake eatenState) \<noteq> last (snake eatState)
   \<and> eats 20 eatenState \<and> spawnsReturn 20 rndExample eatenState
   \<and> update 20 rndExample eatenState = Some (Inr grownState)
   \<and> length (snake eatenState) = 2 \<and> length (snake grownState) = 3
   \<and> last (snake grownState) = snake eatenState ! 0
   \<and> last (snake grownState) = last (snake eatenState)
   \<and> eats 20 stuckState \<and> \<not> spawnsReturn 20 rndExample stuckState
   \<and> update 20 rndExample stuckState = None"
proof -
  have l: "length (snake eatState) = 1" "length (snake eatenState) = 2"
    "last (snake eatState) = \<lparr>x = 10, y = 10\<rparr>" "food eatState = \<lparr>x = 11, y = 10\<rparr>"
    "snake eatenState ! 0 = \<lparr>x = 11, y = 10\<rparr>"
    and l2: "length (snake eatenState) \<ge> 2"
    and l4: "snake eatenState ! (length (snake eatenState) - 2)
             = snake eatenState ! (length (snake eatenState) - 1)"
    by (simp_all add: eatState_def eatenState_def)
  from eating_tick_grows [OF eatState_eats, of rndExample eatenState] eatState_tick l(1)
  have a: "spawnsReturn 20 rndExample eatState
    \<and> length (snake eatenState) = length (snake eatState) + 1
    \<and> hd (snake eatenState) = food eatState
    \<and> last (snake eatenState) = hd (snake eatenState)"
    by blast
  from eating_tick_grows [OF eatenState_eats, of rndExample grownState] eatenState_tick l2 l4
  have b: "spawnsReturn 20 rndExample eatenState
    \<and> length (snake grownState) = length (snake eatenState) + 1
    \<and> last (snake grownState) = snake eatenState ! (length (snake eatenState) - 2)
    \<and> last (snake grownState) = last (snake eatenState)"
    by blast
  from eating_tick_grows [OF stuckState_eats, of rndExample] stuckState_loops
  have c: "update 20 rndExample stuckState = None"
    by blast
  show ?thesis
    using a b c l eatState_eats eatenState_eats eatState_tick eatenState_tick
      stuckState_eats stuckState_loops by simp
qed

subsection \<open>Distinct segments\<close>

text \<open>
  A state reached during play is reachable, and in a state reached during play whose game
  is not over the segments other than the last are pairwise distinct.
\<close>

lemma played_reachable: "played N rnd over s \<Longrightarrow> reachable N rnd s"
proof (induction rule: played.induct)
  case (loaded hs)
  show ?case by (rule reachable.loaded)
next
  case (key over s k)
  then show ?case by (simp add: reachable.key)
next
  case (pause over s)
  then show ?case by (simp add: reachable.pause)
next
  case (restart over s s')
  then show ?case by (blast intro: reachable.restart)
next
  case (start s s')
  then show ?case by (blast intro: reachable.start)
next
  case (tick s s')
  then show ?case by (blast intro: reachable.tick)
qed

lemma played_front_distinct:
  assumes "played N rnd over s" and "\<not> over"
  shows "distinct (butlast (snake s))"
  using assms
proof (induction rule: played.induct)
  case (loaded hs)
  show ?case by (simp add: initial_def)
next
  case (key over s k)
  then show ?case by (simp add: handleKeyPress_def Let_def)
next
  case (pause over s)
  then show ?case by (simp add: togglePause_def)
next
  case (restart over s s')
  from resetGame_result [OF restart.hyps(2)] show ?case by simp
next
  case (start s s')
  show ?case
  proof (cases "gameLoop s = None")
    case True
    then show ?thesis using start by (auto simp: startGame_def)
  next
    case False
    then have "resetGame N rnd s = Some s'"
      using start.hyps(2) by (auto simp: startGame_def split: if_splits)
    from resetGame_result [OF this] show ?thesis by simp
  qed
next
  case (tick s s')
  from tick.IH have d: "distinct (butlast (snake s))" by simp
  from tick.prems have nc: "\<not> collides N s" by simp
  show ?case
  proof (cases "isPaused s")
    case True
    then have "s' = s" using tick.hyps(3) by (simp add: update_def)
    then show ?thesis using d by simp
  next
    case False
    from tick_distinct [OF d False nc tick.hyps(3)] show ?thesis by simp
  qed
qed

text \<open>
  Claim C3, as the script has it. In every state reached during play, by key presses,
  clicks and ticks from the loaded page with no click on Start after a game over, and the
  game not over, the segments of the snake other than the last are pairwise distinct. A
  tick of the running game that detects no collision leads to such a state again. After it
  all segments are pairwise distinct when it only moved; when it ate they are not: the last
  segment is on the cell of the one before it.
\<close>

theorem play_keeps_front_distinct:
  assumes "played N rnd False s"
  shows "distinct (butlast (snake s))
    \<and> (gameLoop s \<noteq> None \<and> \<not> isPaused s \<and> \<not> collides N s \<and> update N rnd s = Some (Inr s')
        \<longrightarrow> played N rnd False s'
          \<and> distinct (butlast (snake s'))
          \<and> (\<not> eats N s \<longrightarrow> distinct (snake s'))
          \<and> (eats N s \<longrightarrow> \<not> distinct (snake s') \<and> last (snake s') = last (butlast (snake s'))))"
proof -
  have d: "distinct (butlast (snake s))"
    using played_front_distinct [OF assms] by simp
  have step: "played N rnd False s'
          \<and> distinct (butlast (snake s'))
          \<and> (\<not> eats N s \<longrightarrow> distinct (snake s'))
          \<and> (eats N s \<longrightarrow> \<not> distinct (snake s') \<and> last (snake s') = last (butlast (snake s')))"
    if g: "gameLoop s \<noteq> None" and p: "\<not> isPaused s" and nc: "\<not> collides N s"
      and u: "update N rnd s = Some (Inr s')"
  proof -
    from played.tick [OF assms g u] nc have "played N rnd False s'" by simp
    then show ?thesis using tick_distinct [OF d p nc u] by simp
  qed
  show ?thesis using d step by blast
qed

lemma eatState_played: "played 20 rndExample False eatState"
proof -
  have "played 20 rndExample False (initial 0)" by (rule played.loaded)
  then have "played 20 rndExample False (eatState\<lparr>direction := \<lparr>x = 0, y = 0\<rparr>\<rparr>)"
    using reset_example by (rule played.restart)
  then have "played 20 rndExample False
      (handleKeyPress ''ArrowRight'' (eatState\<lparr>direction := \<lparr>x = 0, y = 0\<rparr>\<rparr>))"
    by (rule played.key)
  then show ?thesis by (simp only: key_example)
qed

lemma eatenState_played: "played 20 rndExample False eatenState"
proof -
  have "gameLoop eatState \<noteq> None" by (simp add: eatState_def)
  from played.tick [OF eatState_played this eatState_tick] eatState_goes_on
  show ?thesis by simp
qed

lemma grownState_played: "played 20 rndExample False grownState"
proof -
  have "gameLoop eatenState \<noteq> None" by (simp add: eatenState_def)
  from played.tick [OF eatenState_played this eatenState_tick] eatenState_goes_on
  show ?thesis by simp
qed

text \<open>
  Against claim C3 as stated: the eating tick of the example takes a snake of distinct
  segments to a running game with two segments on \<open>(11, 10)\<close>. And a click on Start after a
  game over is to be left out: in \<open>resumedState\<close> the game runs with the head on the third
  of five segments.
\<close>

theorem distinct_counterexample:
  "played 20 rndExample False eatState \<and> distinct (snake eatState)
   \<and> update 20 rndExample eatState = Some (Inr eatenState)
   \<and> played 20 rndExample False eatenState
   \<and> gameLoop eatenState \<noteq> None \<and> \<not> isPaused eatenState
   \<and> \<not> distinct (snake eatenState)
   \<and> reachable 20 rndGame resumedState
   \<and> gameLoop resumedState \<noteq> None \<and> \<not> isPaused resumedState
   \<and> \<not> distinct (butlast (snake resumedState))"
  using eatState_played eatenState_played eatState_tick resumedState_reachable
  by (simp add: eatState_def eatenState_def resumedState_def)

text \<open>An eating tick and a moving tick of the example.\<close>

theorem play_keeps_front_distinct_witness:
  "played 20 rndExample False eatState \<and> eats 20 eatState
   \<and> update 20 rndExample eatState = Some (Inr eatenState)
   \<and> played 20 rndExample False eatenState
   \<and> distinct (butlast (snake eatenState)) \<and> \<not> distinct (snake eatenState)
   \<and> played 20 rndExample False grownState \<and> \<not> eats 20 grownState
   \<and> update 20 rndExample grownState = Some (Inr turnState)
   \<and> played 20 rndExample False turnState
   \<and> distinct (snake turnState)"
proof -
  have g: "gameLoop eatState \<noteq> None" "\<not> isPaused eatState"
    "gameLoop grownState \<noteq> None" "\<not> isPaused grownState"
    by (simp_all add: eatState_def grownState_def)
  from play_keeps_front_distinct [OF eatState_played, of eatenState]
    g(1,2) eatState_goes_on eatState_tick eatState_eats
  have a: "played 20 rndExample False eatenState
     \<and> distinct (butlast (snake eatenState)) \<and> \<not> distinct (snake eatenState)"
    by blast
  from play_keeps_front_distinct [OF grownState_played, of turnState]
    g(3,4) grownState_goes_on grownState_tick grownState_moves
  have b: "played 20 rndExample False turnState \<and> distinct (snake turnState)"
    by blast
  show ?thesis
    using a b eatState_played eatState_eats eatState_tick grownState_played grownState_moves
      grownState_tick by blast
qed

subsection \<open>Two keys between two ticks\<close>

lemma update_direction:
  assumes "update N rnd s = Some (Inr s')"
  shows "direction s' = direction s"
proof -
  from update_cases [OF assms] consider "s' = s"
    | s1 where "moveSnake N s = Inr s1" "s' = endGame s1"
    | s1 where "moveSnake N s = Inr s1" "s' = obstaclePhase N rnd s1"
    | s1 s2 where "moveSnake N s = Inr s1" "eatFood N rnd s1 = Some (Inr s2)"
        "s' = obstaclePhase N rnd s2"
    by blast
  then show ?thesis
  proof cases
    case 1
    then show ?thesis by simp
  next
    case 2
    from moveSnake_result [OF 2(1)] 2(2) show ?thesis by (auto simp: endGame_def)
  next
    case 3
    from moveSnake_result [OF 3(1)] 3(2) show ?thesis by (auto simp: obstaclePhase_fields)
  next
    case 4
    from moveSnake_result [OF 4(1)] eatFood_result [OF 4(2)] 4(3) show ?thesis
      by (auto simp: obstaclePhase_fields)
  qed
qed

lemma wrap_back:
  assumes "0 \<le> v" and "v < N"
  shows "wrap N (wrap N (v + 1) + - 1) = v"
proof (cases "v + 1 = N")
  case True
  then have "wrap N (v + 1) = 0" using assms by (simp add: wrap_def)
  then show ?thesis using True assms by (simp add: wrap_def)
next
  case False
  then have "wrap N (v + 1) = v + 1" using assms by (simp add: wrap_def)
  then show ?thesis using assms by (simp add: wrap_def)
qed

text \<open>
  Claim C10. Let a tick of the running game move the snake to the right: the head goes one
  cell to the right. If the keys ArrowUp and ArrowLeft arrive before the next tick, the
  first sets the direction to up, and the second, tested against up, sets it to left, the
  reverse of the direction the last tick moved with. The next tick moves with it:
  \<^verbatim>\<open>moveSnake\<close> puts the new head one cell to the left, and when the tick returns, the head
  of its snake is there, which for a head on the grid is the cell it had before the first
  of the two ticks.
\<close>

theorem two_keys_reverse:
  assumes "direction s = \<lparr>x = 1, y = 0\<rparr>"
    and "gameLoop s \<noteq> None" and "\<not> isPaused s"
    and "update N rnd s = Some (Inr s1)"
    and "gameLoop s1 \<noteq> None"
  shows "hd (snake s1) = \<lparr>x = wrap N (x (hd (snake s)) + 1), y = wrap N (y (hd (snake s)) + 0)\<rparr>
    \<and> direction (handleKeyPress ''ArrowUp'' s1) = \<lparr>x = 0, y = -1\<rparr>
    \<and> direction (handleKeyPress ''ArrowLeft'' (handleKeyPress ''ArrowUp'' s1))
        = \<lparr>x = - x (direction s), y = - y (direction s)\<rparr>
    \<and> moveSnake N (handleKeyPress ''ArrowLeft'' (handleKeyPress ''ArrowUp'' s1))
        = Inr ((handleKeyPress ''ArrowLeft'' (handleKeyPress ''ArrowUp'' s1))
                 \<lparr>snake := \<lparr>x = wrap N (x (hd (snake s1)) + - 1),
                             y = wrap N (y (hd (snake s1)) + 0)\<rparr> # butlast (snake s1)\<rparr>)
    \<and> (update N rnd (handleKeyPress ''ArrowLeft'' (handleKeyPress ''ArrowUp'' s1)) = Some (Inr s3)
        \<longrightarrow> hd (snake s3) = \<lparr>x = wrap N (x (hd (snake s1)) + - 1),
                              y = wrap N (y (hd (snake s1)) + 0)\<rparr>
          \<and> (inGrid N (hd (snake s)) \<longrightarrow> hd (snake s3) = hd (snake s)))"
proof -
  let ?s2 = "handleKeyPress ''ArrowLeft'' (handleKeyPress ''ArrowUp'' s1)"
  let ?h3 = "\<lparr>x = wrap N (x (hd (snake s1)) + - 1), y = wrap N (y (hd (snake s1)) + 0)\<rparr>"
  have h1: "hd (snake s1) = \<lparr>x = wrap N (x (hd (snake s)) + 1), y = wrap N (y (hd (snake s)) + 0)\<rparr>"
    and p1: "\<not> isPaused s1" and ne: "snake s1 \<noteq> []"
    using update_head [OF assms(4,3)] assms(1,3) by simp_all
  have d1: "direction s1 = \<lparr>x = 1, y = 0\<rparr>"
    using update_direction [OF assms(4)] assms(1) by simp
  have up: "direction (handleKeyPress ''ArrowUp'' s1) = \<lparr>x = 0, y = -1\<rparr>"
    using d1 by (simp add: handleKeyPress_def)
  have s2: "?s2 = s1\<lparr>direction := \<lparr>x = -1, y = 0\<rparr>\<rparr>"
    using d1 by (simp add: handleKeyPress_def)
  have p2: "\<not> isPaused ?s2" using p1 by (simp add: s2)
  have m: "moveSnake N ?s2 = Inr (?s2\<lparr>snake := ?h3 # butlast (snake s1)\<rparr>)"
    using ne unfolding s2 by (cases "snake s1") (simp_all add: moveSnake_def)
  have nxt: "hd (snake s3) = ?h3 \<and> (inGrid N (hd (snake s)) \<longrightarrow> hd (snake s3) = hd (snake s))"
    if u: "update N rnd ?s2 = Some (Inr s3)"
  proof -
    have h3: "hd (snake s3) = ?h3"
      using update_head [OF u p2] by (simp add: s2)
    have again: "hd (snake s3) = hd (snake s)" if "inGrid N (hd (snake s))"
    proof -
      from that have g: "0 \<le> x (hd (snake s))" "x (hd (snake s)) < N"
        "0 \<le> y (hd (snake s))" "y (hd (snake s)) < N" by (simp_all add: inGrid_def)
      have "x (hd (snake s3)) = x (hd (snake s))"
        using wrap_back [OF g(1,2)] by (simp add: h3 h1)
      moreover have "y (hd (snake s3)) = y (hd (snake s))"
        using g(3,4) by (simp add: h3 h1 wrap_same)
      ultimately show ?thesis by (simp add: point_eq_iff [symmetric])
    qed
    show ?thesis using h3 again by blast
  qed
  have rev: "direction ?s2 = \<lparr>x = - x (direction s), y = - y (direction s)\<rparr>"
    by (simp add: s2 assms(1))
  show ?thesis using h1 up rev m nxt by blast
qed

text \<open>
  In the example the head goes from \<open>(12, 10)\<close> to \<open>(13, 10)\<close> and, after the two keys, back
  to \<open>(12, 10)\<close>, into the body.
\<close>

theorem two_keys_reverse_witness:
  "direction grownState = \<lparr>x = 1, y = 0\<rparr>
   \<and> update 20 rndExample grownState = Some (Inr turnState)
   \<and> hd (snake grownState) = \<lparr>x = 12, y = 10\<rparr>
   \<and> hd (snake turnState) = \<lparr>x = 13, y = 10\<rparr>
   \<and> direction (handleKeyPress ''ArrowLeft'' (handleKeyPress ''ArrowUp'' turnState))
       = \<lparr>x = -1, y = 0\<rparr>
   \<and> update 20 rndExample (handleKeyPress ''ArrowLeft'' (handleKeyPress ''ArrowUp'' turnState))
       = Some (Inr overState)
   \<and> hd (snake overState) = hd (snake grownState)"
proof -
  have d: "direction grownState = \<lparr>x = 1, y = 0\<rparr>" and g: "gameLoop grownState \<noteq> None"
    and p: "\<not> isPaused grownState" and g1: "gameLoop turnState \<noteq> None"
    and i: "inGrid 20 (hd (snake grownState))"
    and h: "hd (snake grownState) = \<lparr>x = 12, y = 10\<rparr>"
    by (simp_all add: grownState_def turnState_def inGrid_def)
  have u: "update 20 rndExample (handleKeyPress ''ArrowLeft'' (handleKeyPress ''ArrowUp'' turnState))
       = Some (Inr overState)"
    by (simp only: turnState_keys turnState_tick)
  from two_keys_reverse [OF d g p grownState_tick g1, of overState] u i d h grownState_tick
  show ?thesis by (simp add: wrap_def)
qed

subsection \<open>Difficulty\<close>

text \<open>The speed of a reachable state is never under \<open>minSpeed\<close>.\<close>

lemma update_gameSpeed:
  assumes "update N rnd s = Some (Inr s')" and "minSpeed \<le> gameSpeed s"
  shows "minSpeed \<le> gameSpeed s'"
proof -
  from update_cases [OF assms(1)] consider "s' = s"
    | s1 where "moveSnake N s = Inr s1" "s' = endGame s1"
    | s1 where "moveSnake N s = Inr s1" "s' = obstaclePhase N rnd s1"
    | s1 s2 where "moveSnake N s = Inr s1" "eatFood N rnd s1 = Some (Inr s2)"
        "s' = obstaclePhase N rnd s2"
    by blast
  then show ?thesis
  proof cases
    case 1
    then show ?thesis using assms(2) by simp
  next
    case 2
    from moveSnake_result [OF 2(1)] 2(2) assms(2) show ?thesis by (auto simp: endGame_def)
  next
    case 3
    from moveSnake_result [OF 3(1)] 3(2) assms(2) show ?thesis
      by (auto simp: obstaclePhase_fields)
  next
    case 4
    from moveSnake_result [OF 4(1)] have "gameSpeed s1 = gameSpeed s" by auto
    with eatFood_result [OF 4(2)] 4(3) assms(2) show ?thesis
      by (auto simp: obstaclePhase_fields)
  qed
qed

lemma reachable_gameSpeed:
  assumes "reachable N rnd s"
  shows "minSpeed \<le> gameSpeed s"
  using assms
proof (induction rule: reachable.induct)
  case (loaded hs)
  show ?case by (simp add: initial_def minSpeed_def)
next
  case (key s k)
  then show ?case by (simp add: handleKeyPress_def Let_def)
next
  case (start s s')
  show ?case
  proof (cases "gameLoop s = None")
    case True
    then show ?thesis using start.hyps(2) by (auto simp: startGame_def minSpeed_def)
  next
    case False
    then have "resetGame N rnd s = Some s'"
      using start.hyps(2) by (auto simp: startGame_def split: if_splits)
    from resetGame_result [OF this] show ?thesis by (simp add: minSpeed_def)
  qed
next
  case (pause s)
  then show ?case by (simp add: togglePause_def)
next
  case (restart s s')
  from resetGame_result [OF restart.hyps(2)] show ?case by (simp add: minSpeed_def)
next
  case (tick s s')
  from update_gameSpeed [OF tick.hyps(3) tick.IH] show ?case .
qed

text \<open>The values after a tick of the game that eats and returns.\<close>

lemma eating_tick_values:
  assumes "reachable N rnd s" and "eats N s" and "update N rnd s = Some (Inr s')"
  shows "score s' = score s + 10
    \<and> gameSpeed s' = max 50 (gameSpeed s - 5)
    \<and> 50 \<le> gameSpeed s'
    \<and> length (obstacles s') = length (obstacles s)
         + (if score s' \<ge> 50 \<and> score s' mod 50 = 0 then 1 else 0)"
proof -
  from eats_tick [OF assms(2,3)] obtain h s2 where
    e: "eatFood N rnd (s\<lparr>snake := h # butlast (snake s)\<rparr>) = Some (Inr s2)"
    and s': "s' = obstaclePhase N rnd s2" by blast
  have g: "50 \<le> gameSpeed s"
    using reachable_gameSpeed [OF assms(1)] by (simp add: minSpeed_def)
  from eatFood_result [OF e] have
    sc: "score s2 = score s + 10"
    and sp: "gameSpeed s2 = (if gameSpeed s > minSpeed
                             then max minSpeed (gameSpeed s - speedIncrement) else gameSpeed s)"
    and ob: "length (obstacles s2) = length (obstacles s)
         + (if score s + 10 \<ge> 50 \<and> (score s + 10) mod 50 = 0 then 1 else 0)"
    by simp_all
  have sp': "gameSpeed s2 = max 50 (gameSpeed s - 5)"
    using sp g by (auto simp: minSpeed_def speedIncrement_def)
  show ?thesis
    using sc sp' ob s' by (simp add: obstaclePhase_fields)
qed

text \<open>
  Claim C6. A tick of the game that eats returns exactly when its spawners find free cells,
  and otherwise never returns. When it returns, the score has gone up by 10, the tick
  interval \<open>t\<close> has become \<open>max 50 (t - 5)\<close> and so stays at 50 or above, and the number of
  obstacles has gone up by one when the new score is a multiple of 50 from 50 on, and by
  none otherwise.
\<close>

theorem eating_tick_difficulty:
  assumes "reachable N rnd s" and "eats N s"
  shows "((\<exists>t. update N rnd s = Some (Inr t)) = spawnsReturn N rnd s)
    \<and> ((update N rnd s = None) = (\<not> spawnsReturn N rnd s))
    \<and> (update N rnd s = Some (Inr s') \<longrightarrow>
          score s' = score s + 10
        \<and> gameSpeed s' = max 50 (gameSpeed s - 5)
        \<and> 50 \<le> gameSpeed s'
        \<and> length (obstacles s') = length (obstacles s)
             + (if score s' \<ge> 50 \<and> score s' mod 50 = 0 then 1 else 0))"
proof -
  note ret = eating_tick_return [OF assms(2), of rnd]
  show ?thesis
    using ret eating_tick_values [OF assms] by blast
qed

text \<open>
  In the longer game: the tick from \<open>game4\<close> reaches the score 50 and spawns the first
  obstacle; the tick from \<open>game20\<close> finds the tick interval at 50 and leaves it there, and
  spawns no obstacle at the score 210. In the example game: the tick from \<open>stuckState\<close>
  does not return.
\<close>

lemma stuckState_reachable: "reachable 20 rndExample stuckState"
  using played_reachable [OF grownState_played] stuckState_played by (rule play_reachable)

theorem eating_tick_difficulty_witness:
  "reachable 20 rndGame game4 \<and> eats 20 game4 \<and> spawnsReturn 20 rndGame game4
   \<and> update 20 rndGame game4 = Some (Inr game5)
   \<and> score game4 = 40 \<and> score game5 = 50
   \<and> gameSpeed game4 = 130 \<and> gameSpeed game5 = 125
   \<and> length (obstacles game4) = 0 \<and> length (obstacles game5) = 1
   \<and> reachable 20 rndGame game20 \<and> eats 20 game20 \<and> spawnsReturn 20 rndGame game20
   \<and> update 20 rndGame game20 = Some (Inr game21)
   \<and> score game20 = 200 \<and> score game21 = 210
   \<and> gameSpeed game20 = 50 \<and> gameSpeed game21 = 50
   \<and> length (obstacles game20) = 4 \<and> length (obstacles game21) = 4
   \<and> reachable 20 rndExample stuckState \<and> eats 20 stuckState
   \<and> \<not> spawnsReturn 20 rndExample stuckState \<and> update 20 rndExample stuckState = None"
proof -
  have v: "score game4 = 40" "gameSpeed game4 = 130" "length (obstacles game4) = 0"
    "score game20 = 200" "gameSpeed game20 = 50" "length (obstacles game20) = 4"
    by (simp_all add: game4_def game20_def)
  from eating_tick_difficulty [OF game4_reachable game4_eats, of game5] game4_tick v(1,2,3)
  have a: "spawnsReturn 20 rndGame game4 \<and> score game5 = 50 \<and> gameSpeed game5 = 125
    \<and> length (obstacles game5) = 1"
    by simp
  from eating_tick_difficulty [OF game20_reachable game20_eats, of game21] game20_tick v(4,5,6)
  have b: "spawnsReturn 20 rndGame game20 \<and> score game21 = 210 \<and> gameSpeed game21 = 50
    \<and> length (obstacles game21) = 4"
    by simp
  from eating_tick_difficulty [OF stuckState_reachable stuckState_eats] stuckState_loops
  have c: "update 20 rndExample stuckState = None"
    by blast
  show ?thesis
    using a b c v game4_reachable game4_eats game4_tick game20_reachable game20_eats game20_tick
      stuckState_reachable stuckState_eats stuckState_loops
    by simp
qed

subsection \<open>Spawned cells\<close>

text \<open>
  Claim C7. When \<^verbatim>\<open>spawnFood\<close> returns, the new food is on no segment of the snake and on
  no obstacle; when \<^verbatim>\<open>spawnObstacle\<close> returns, it has appended one obstacle, which is on
  no segment of the snake, not on the food and on none of the obstacles there were. Neither
  changes the cells it had to avoid.
\<close>

theorem spawned_cell_free:
  "(spawnFood N rnd s = Some s' \<longrightarrow>
      food s' \<notin> set (snake s) \<and> food s' \<notin> set (obstacles s)
      \<and> snake s' = snake s \<and> obstacles s' = obstacles s)
   \<and> (spawnObstacle N rnd s = Some s'' \<longrightarrow>
      (\<exists>c. obstacles s'' = obstacles s @ [c]
           \<and> c \<notin> set (snake s) \<and> c \<noteq> food s \<and> c \<notin> set (obstacles s))
      \<and> snake s'' = snake s \<and> food s'' = food s)"
proof (intro conjI impI)
  assume "spawnFood N rnd s = Some s'"
  from spawnFood_result [OF this] obtain d c where "s' = s\<lparr>draws := d, food := c\<rparr>"
    and "c \<notin> set (snake s)" "c \<notin> set (obstacles s)" by blast
  then show "food s' \<notin> set (snake s)" "food s' \<notin> set (obstacles s)"
    "snake s' = snake s" "obstacles s' = obstacles s" by simp_all
next
  assume "spawnObstacle N rnd s = Some s''"
  from spawnObstacle_result [OF this] obtain d c where
    "s'' = s\<lparr>draws := d, obstacles := obstacles s @ [c]\<rparr>"
    and "c \<notin> set (snake s)" "c \<noteq> food s" "c \<notin> set (obstacles s)" by blast
  then show "\<exists>c. obstacles s'' = obstacles s @ [c]
           \<and> c \<notin> set (snake s) \<and> c \<noteq> food s \<and> c \<notin> set (obstacles s)"
    "snake s'' = snake s" "food s'' = food s" by simp_all
qed

lemma eatState_spawnFood:
  "spawnFood 20 rndExample eatState = Some (eatState\<lparr>draws := 4, food := \<lparr>x = 12, y = 10\<rparr>\<rparr>)"
  by (subst spawnFood.simps) (simp add: eatState_def rndExample_def occupies_def)

lemma eatState_spawnObstacle:
  "spawnObstacle 20 rndExample eatState
     = Some (eatState\<lparr>draws := 4, obstacles := [\<lparr>x = 12, y = 10\<rparr>]\<rparr>)"
  by (subst spawnObstacle.simps) (simp add: eatState_def rndExample_def occupies_def)

theorem spawned_cell_free_witness:
  "spawnFood 20 rndExample eatState = Some (eatState\<lparr>draws := 4, food := \<lparr>x = 12, y = 10\<rparr>\<rparr>)
   \<and> spawnObstacle 20 rndExample eatState
       = Some (eatState\<lparr>draws := 4, obstacles := [\<lparr>x = 12, y = 10\<rparr>]\<rparr>)
   \<and> \<lparr>x = 12, y = 10\<rparr> \<notin> set (snake eatState) \<and> \<lparr>x = 12, y = 10\<rparr> \<noteq> food eatState"
  using spawned_cell_free [of 20 rndExample eatState
           "eatState\<lparr>draws := 4, food := \<lparr>x = 12, y = 10\<rparr>\<rparr>"
           "eatState\<lparr>draws := 4, obstacles := [\<lparr>x = 12, y = 10\<rparr>]\<rparr>"]
    eatState_spawnFood eatState_spawnObstacle
  by (simp add: eatState_def)

subsection \<open>Start after a game over\<close>

text \<open>
  The example game goes on to its end: a second food, a tick to the right, the keys ArrowUp
  and ArrowLeft, and the tick that runs the head into the body. \<open>overState\<close> is reachable.
\<close>

lemma overState_reachable: "reachable 20 rndExample overState"
proof -
  have l: "gameLoop eatState \<noteq> None" "gameLoop eatenState \<noteq> None"
    "gameLoop grownState \<noteq> None" "gameLoop (turnState\<lparr>direction := \<lparr>x = -1, y = 0\<rparr>\<rparr>) \<noteq> None"
    by (simp_all add: eatState_def eatenState_def grownState_def turnState_def)
  have "reachable 20 rndExample eatenState"
    using eatState_reachable l(1) eatState_tick by (rule reachable.tick)
  then have "reachable 20 rndExample grownState"
    using l(2) eatenState_tick by (rule reachable.tick)
  then have "reachable 20 rndExample turnState"
    using l(3) grownState_tick by (rule reachable.tick)
  then have "reachable 20 rndExample (handleKeyPress ''ArrowUp'' turnState)"
    by (rule reachable.key)
  then have "reachable 20 rndExample
      (handleKeyPress ''ArrowLeft'' (handleKeyPress ''ArrowUp'' turnState))"
    by (rule reachable.key)
  then have "reachable 20 rndExample (turnState\<lparr>direction := \<lparr>x = -1, y = 0\<rparr>\<rparr>)"
    by (simp only: turnState_keys)
  then show ?thesis
    using l(4) turnState_tick by (rule reachable.tick)
qed

text \<open>
  Claim C1 asks of Start, clicked when no interval runs, that it resets snake, direction,
  score, obstacles and tick interval. In the state after the game over \<^verbatim>\<open>startGame\<close> sets
  the tick interval to 150 and starts the interval, and nothing else: the score stays 20,
  the snake keeps its three segments, the head on the third, and its direction.
\<close>

theorem start_after_game_over_keeps_state:
  "startGame N rnd overState = Some (overState\<lparr>gameSpeed := 150, gameLoop := Some 150\<rparr>)
   \<and> score overState = 20
   \<and> snake overState = [\<lparr>x = 12, y = 10\<rparr>, \<lparr>x = 13, y = 10\<rparr>, \<lparr>x = 12, y = 10\<rparr>]
   \<and> direction overState = \<lparr>x = -1, y = 0\<rparr>"
  by (simp add: startGame_def overState_def)

text \<open>
  The rest of claim C1 holds: with an interval running, Start is \<^verbatim>\<open>resetGame\<close>, the handler
  of Restart, whose result \<open>resetGame_result\<close> describes; and Start on the loaded page gives
  the initial values with the tick interval 150.
\<close>

lemma startGame_running:
  "gameLoop s \<noteq> None \<Longrightarrow> startGame N rnd s = resetGame N rnd s"
  by (auto simp: startGame_def)

lemma startGame_idle:
  "startGame N rnd (initial hs) = Some ((initial hs)\<lparr>gameSpeed := 150, gameLoop := Some 150\<rparr>)"
  by (simp add: startGame_def initial_def)

subsection \<open>The obstacle mover\<close>

text \<open>
  The obstacles of a reachable state are cells of the grid, for random values in \<open>[0, 1)\<close>
  and a positive grid size: they are spawned on drawn cells and moved to neighbouring cells.
\<close>

lemma eatFood_obstacles:
  assumes "eatFood N rnd s = Some (Inr s')"
  shows "obstacles s' = obstacles s \<or> (\<exists>d. obstacles s' = obstacles s @ [drawnCell N rnd d])"
proof -
  have ne: "snake s \<noteq> []" using eatFood_result [OF assms] by simp
  let ?b = "score s + 10 \<ge> 50 \<and> (score s + 10) mod 50 = 0"
  from assms obtain s4 where
    s4: "(if ?b then spawnObstacle N rnd (scored s) else Some (scored s)) = Some s4"
    and s6: "spawnFood N rnd (sped s4) = Some s'"
    unfolding eatFood_nonempty [OF ne] by (auto split: option.splits)
  from spawnFood_result [OF s6] have "obstacles s' = obstacles (sped s4)" by auto
  then have o': "obstacles s' = obstacles s4" by (simp add: sped_def)
  show ?thesis
  proof (cases ?b)
    case True
    then have "spawnObstacle N rnd (scored s) = Some s4" using s4 by simp
    from spawnObstacle_drawn [OF this] o' show ?thesis by (simp add: scored_def)
  next
    case False
    then have "s4 = scored s" using s4 by (auto split: if_splits)
    then show ?thesis using o' by (simp add: scored_def)
  qed
qed

lemma obstaclePhase_inGrid:
  assumes "\<forall>p \<in> set (obstacles s). inGrid N p"
  shows "\<forall>p \<in> set (obstacles (obstaclePhase N rnd s)). inGrid N p"
proof (cases "score s \<ge> 200")
  case False
  then show ?thesis using assms by (simp add: obstaclePhase_def)
next
  case True
  define s' where "s' = fold (moveObstacle N rnd) [0..<length (obstacles s)] s"
  from moveObstacles_prefix [OF assms, of "length (obstacles s)" rnd]
  have len: "length (obstacles s') = length (obstacles s)"
    and moved: "\<forall>i<length (obstacles s). movedOrSame N s (obstacles s') i"
    unfolding s'_def by auto
  have "inGrid N (obstacles s' ! i)" if "i < length (obstacles s')" for i
  proof -
    have g: "inGrid N (obstacles s ! i)" using assms that len by simp
    from moved that len have "movedOrSame N s (obstacles s') i" by simp
    then show ?thesis using g wrapNeighbour_inGrid [OF g] by (auto simp: movedOrSame_def)
  qed
  then have "\<forall>p \<in> set (obstacles s'). inGrid N p" by (auto simp: in_set_conv_nth)
  then show ?thesis using True by (simp add: obstaclePhase_def moveObstacles_def s'_def)
qed

lemma update_obstacles_inGrid:
  assumes "update N rnd s = Some (Inr s')"
    and "\<forall>n. 0 \<le> rnd n \<and> rnd n < 1" and "0 < N"
    and "\<forall>p \<in> set (obstacles s). inGrid N p"
  shows "\<forall>p \<in> set (obstacles s'). inGrid N p"
proof -
  from update_cases [OF assms(1)] consider "s' = s"
    | s1 where "moveSnake N s = Inr s1" "s' = endGame s1"
    | s1 where "moveSnake N s = Inr s1" "s' = obstaclePhase N rnd s1"
    | s1 s2 where "moveSnake N s = Inr s1" "eatFood N rnd s1 = Some (Inr s2)"
        "s' = obstaclePhase N rnd s2"
    by blast
  then show ?thesis
  proof cases
    case 1
    then show ?thesis using assms(4) by simp
  next
    case 2
    from moveSnake_result [OF 2(1)] 2(2) assms(4) show ?thesis by (auto simp: endGame_def)
  next
    case 3
    from moveSnake_result [OF 3(1)] have "obstacles s1 = obstacles s" by auto
    then have "\<forall>p \<in> set (obstacles s1). inGrid N p" using assms(4) by simp
    from obstaclePhase_inGrid [OF this] 3(2) show ?thesis by simp
  next
    case 4
    from moveSnake_result [OF 4(1)] have o1: "obstacles s1 = obstacles s" by auto
    have "\<forall>p \<in> set (obstacles s2). inGrid N p"
      using eatFood_obstacles [OF 4(2)] o1 assms(4) drawnCell_inGrid [OF assms(2,3)]
      by auto
    from obstaclePhase_inGrid [OF this] 4(3) show ?thesis by simp
  qed
qed

lemma reachable_obstacles_inGrid:
  assumes "reachable N rnd s" and "\<forall>n. 0 \<le> rnd n \<and> rnd n < 1" and "0 < N"
  shows "\<forall>p \<in> set (obstacles s). inGrid N p"
  using assms(1)
proof (induction rule: reachable.induct)
  case (loaded hs)
  show ?case by (simp add: initial_def)
next
  case (key s k)
  then show ?case by (simp add: handleKeyPress_def Let_def)
next
  case (start s s')
  show ?case
  proof (cases "gameLoop s = None")
    case True
    then show ?thesis using start.hyps(2) start.IH by (auto simp: startGame_def)
  next
    case False
    then have "resetGame N rnd s = Some s'"
      using start.hyps(2) by (auto simp: startGame_def split: if_splits)
    from resetGame_result [OF this] show ?thesis by simp
  qed
next
  case (pause s)
  then show ?case by (simp add: togglePause_def)
next
  case (restart s s')
  from resetGame_result [OF restart.hyps(2)] show ?case by simp
next
  case (tick s s')
  from update_obstacles_inGrid [OF tick.hyps(3) assms(2,3) tick.IH] show ?case .
qed

text \<open>
  Claim C8. Let the score be 200 or more and the obstacles be cells of the grid. The last
  step of a tick leaves the snake, the food and the number of obstacles as they are, and
  each obstacle either on the cell it had, or on one of the four neighbouring cells (across
  the edges) which is then no cell of the snake, not the food and not the cell of any other
  obstacle. An obstacle for which none of the ten attempts finds a valid cell keeps its
  cell. \<^verbatim>\<open>moveObstacles\<close> has no way to fail: its result is a state.
\<close>

theorem obstacles_stay_or_step:
  assumes "score s \<ge> 200" and "\<forall>p \<in> set (obstacles s). inGrid N p"
    and "s' = obstaclePhase N rnd s"
  shows "length (obstacles s') = length (obstacles s) \<and> snake s' = snake s \<and> food s' = food s
    \<and> (\<forall>i<length (obstacles s).
         (obstacles s' ! i = obstacles s ! i
          \<or> (wrapNeighbour N (obstacles s ! i) (obstacles s' ! i)
             \<and> obstacles s' ! i \<notin> set (snake s)
             \<and> obstacles s' ! i \<noteq> food s
             \<and> (\<forall>j<length (obstacles s). j \<noteq> i \<longrightarrow> obstacles s' ! j \<noteq> obstacles s' ! i)))
         \<and> (noValidCandidate N rnd (beforeObstacle N rnd s i) i
              \<longrightarrow> obstacles s' ! i = obstacles s ! i))"
proof -
  have s': "s' = fold (moveObstacle N rnd) [0..<length (obstacles s)] s"
    using assms(1,3) by (simp add: obstaclePhase_def moveObstacles_def)
  from moveObstacles_prefix [OF assms(2), of "length (obstacles s)" rnd]
  obtain d where frame: "s' = s\<lparr>obstacles := obstacles s', draws := d\<rparr>"
    and len: "length (obstacles s') = length (obstacles s)"
    and moved: "\<forall>i<length (obstacles s). movedOrSame N s (obstacles s') i"
    and stuck: "\<forall>i<length (obstacles s).
        noValidCandidate N rnd (fold (moveObstacle N rnd) [0..<i] s) i
          \<longrightarrow> obstacles s' ! i = obstacles s ! i"
    unfolding s' by auto
  have sn: "snake s' = snake s" and fo: "food s' = food s"
    by (subst frame, simp)+
  show ?thesis
    using len sn fo moved stuck
    by (simp add: movedOrSame_def beforeObstacle_def)
qed

text \<open>
  In the example the first obstacle is blocked by the second on each of its ten attempts and
  stays; the second then moves up.
\<close>

lemma hardState_first: "beforeObstacle 20 rndTenth hardState 0 = hardState"
  by (simp add: beforeObstacle_def)

lemma hardState_stuck: "noValidCandidate 20 rndTenth hardState 0"
  by (simp add: noValidCandidate_def list_all_iff hardState_def rndTenth_def
      moveCandidate_def validMove_def occupies_def otherObstacle_def wrap_def
      upt_rec [of 0] upt_rec [of 1])

lemma hardState_moved:
  "obstaclePhase 20 rndTenth hardState
     = hardState\<lparr>obstacles := [\<lparr>x = 0, y = 0\<rparr>, \<lparr>x = 0, y = 18\<rparr>], draws := 13\<rparr>"
  by (simp add: obstaclePhase_def moveObstacles_def moveObstacle_def hardState_def rndTenth_def
      moveAttempts.simps maxAttempts_def
      moveCandidate_def validMove_def occupies_def otherObstacle_def wrap_def
      upt_rec [of 0] upt_rec [of 1])

theorem obstacles_stay_or_step_witness:
  "obstacles (obstaclePhase 20 rndTenth hardState) ! 0 = \<lparr>x = 0, y = 0\<rparr>
   \<and> obstacles (obstaclePhase 20 rndTenth hardState) ! 1 = \<lparr>x = 0, y = 18\<rparr>
   \<and> wrapNeighbour 20 \<lparr>x = 0, y = 19\<rparr> \<lparr>x = 0, y = 18\<rparr>"
proof -
  have h1: "score hardState \<ge> 200" by (simp add: hardState_def)
  have h2: "\<forall>p \<in> set (obstacles hardState). inGrid 20 p"
    by (simp add: hardState_def inGrid_def)
  have ob: "obstacles hardState = [\<lparr>x = 0, y = 0\<rparr>, \<lparr>x = 0, y = 19\<rparr>]"
    by (simp add: hardState_def)
  from obstacles_stay_or_step [OF h1 h2 refl, of rndTenth]
  have a: "noValidCandidate 20 rndTenth (beforeObstacle 20 rndTenth hardState 0) 0
        \<longrightarrow> obstacles (obstaclePhase 20 rndTenth hardState) ! 0 = obstacles hardState ! 0"
    by (simp add: ob)
  have "obstacles (obstaclePhase 20 rndTenth hardState) ! 0 = \<lparr>x = 0, y = 0\<rparr>"
    using a hardState_first hardState_stuck ob by simp
  then show ?thesis
    by (simp add: hardState_moved wrapNeighbour_def)
qed

end
